theory Spec2Isabelle
  imports Main "HOL-Library.Word" "HOL-Library.Signed_Division"
begin

section \<open>ExcSerial: the alternating serial sender of \<^verbatim>\<open>src/main.cpp\<close>\<close>

text \<open>
  The program is one function, \<^verbatim>\<open>main\<close>, that talks to the operating system: it parses
  three arguments, opens and configures a COM port, and then loops, writing the frame
  \<^verbatim>\<open>#n,n,n,n;\<close> and flipping the sign of \<^verbatim>\<open>n\<close>, until a console control event sets
  \<^verbatim>\<open>gStopRequested\<close> or a write fails.

  The embedding keeps the program's variables in a record, gives every answer of the
  operating system as an input (the results of the Win32 calls, the readings of
  \<^verbatim>\<open>steady_clock::now()\<close>, the console control events), and returns how the process
  ended together with everything it did (the bytes on both output streams, the
  \<^verbatim>\<open>WriteFile\<close> calls, the \<^verbatim>\<open>CloseHandle\<close> calls).
\<close>

subsection \<open>Machine types\<close>

text \<open>\<^verbatim>\<open>int\<close> and \<^verbatim>\<open>DWORD\<close>/\<^verbatim>\<open>unsigned int\<close> are 32 bits wide on every Windows target;
  an \<^verbatim>\<open>int\<close> is read with \<open>sint\<close>, an unsigned value with \<open>unat\<close>. A time point is
  the tick count of \<^verbatim>\<open>std::chrono::steady_clock\<close>, whose duration type is nanoseconds
  (a 64-bit count, taken here as an unbounded integer).\<close>

type_synonym cint = "32 word"
type_synonym DWORD = "32 word"
type_synonym time_point = int

definition EXIT_SUCCESS :: int where "EXIT_SUCCESS = 0"
definition EXIT_FAILURE :: int where "EXIT_FAILURE = 1"

text \<open>The console control codes of \<^verbatim>\<open>windows.h\<close>.\<close>

definition CTRL_C_EVENT :: DWORD where "CTRL_C_EVENT = 0"
definition CTRL_BREAK_EVENT :: DWORD where "CTRL_BREAK_EVENT = 1"
definition CTRL_CLOSE_EVENT :: DWORD where "CTRL_CLOSE_EVENT = 2"
definition CTRL_LOGOFF_EVENT :: DWORD where "CTRL_LOGOFF_EVENT = 5"
definition CTRL_SHUTDOWN_EVENT :: DWORD where "CTRL_SHUTDOWN_EVENT = 6"

subsection \<open>Text: decimal rendering and integer extraction\<close>

text \<open>\<^verbatim>\<open>std::format("{}", n)\<close> and \<^verbatim>\<open>operator<<\<close> render an integer in decimal, with a
  minus sign when it is negative and no leading zeros.\<close>

definition digit_char :: "int \<Rightarrow> char" where
  "digit_char d = ''0123456789'' ! nat d"

function dec_digits :: "int \<Rightarrow> string" where
  "dec_digits k = (if k < 10 then [digit_char k]
                   else dec_digits (k div 10) @ [digit_char (k mod 10)])"
  by pat_completeness auto
termination
  by (relation "measure nat") auto

declare dec_digits.simps [simp del]

definition dec_int :: "int \<Rightarrow> string" where
  "dec_int i = (if i < 0 then CHR ''-'' # dec_digits (- i) else dec_digits i)"

definition endl :: string where
  "endl = [CHR 0x0A]"

text \<open>\<^verbatim>\<open>std::stringstream ss(arg); ss >> n; if (!ss) ...\<close>: formatted extraction of an
  \<^verbatim>\<open>int\<close> in the classic locale. Leading white space is skipped, an optional sign is
  read, then the longest run of decimal digits; what follows the digits stays in the
  stream. The stream fails (\<open>None\<close>) when there is no digit or when the number does not
  fit an \<^verbatim>\<open>int\<close>.\<close>

definition isspace :: "char \<Rightarrow> bool" where
  "isspace c = (c \<in> {CHR '' '', CHR 0x09, CHR 0x0A, CHR 0x0B, CHR 0x0C, CHR 0x0D})"

definition isdigit :: "char \<Rightarrow> bool" where
  "isdigit c = (c \<in> set ''0123456789'')"

definition digit_val :: "char \<Rightarrow> int" where
  "digit_val c = of_char c - 48"

definition digits_val :: "string \<Rightarrow> int" where
  "digits_val ds = foldl (\<lambda>acc c. 10 * acc + digit_val c) 0 ds"

definition extract_int :: "string \<Rightarrow> cint option" where
  "extract_int arg =
     (let s1 = dropWhile isspace arg;
          neg = (s1 \<noteq> [] \<and> hd s1 = CHR ''-'');
          s2 = (if s1 \<noteq> [] \<and> (hd s1 = CHR ''-'' \<or> hd s1 = CHR ''+'') then tl s1 else s1);
          ds = takeWhile isdigit s2;
          v = (if neg then - digits_val ds else digits_val ds)
      in if ds = [] then None
         else if v < - (2 ^ 31) \<or> 2 ^ 31 \<le> v then None
         else Some (word_of_int v))"

subsection \<open>The operating system as input\<close>

text \<open>A Win32 call that can fail returns \<open>Inl e\<close>, with \<open>e\<close> what \<^verbatim>\<open>GetLastError()\<close>
  then reports, or \<open>Inr ()\<close> on success. \<^verbatim>\<open>FormatMessageA\<close> gives the system's text for
  an error code, or nothing.\<close>

type_synonym winres = "DWORD + unit"

record os =
  FormatMessageA :: "DWORD \<Rightarrow> string option"
  CreateFile :: "string \<Rightarrow> winres"
  SetConsoleCtrlHandler :: winres
  GetCommState :: winres
  SetCommTimeouts :: winres

text \<open>Once the loop is set up the program observes its environment again and again:
  it reads \<^verbatim>\<open>gStopRequested\<close>, it reads the clock, it calls \<^verbatim>\<open>WriteFile\<close>. Each
  observation consumes one \<open>tick\<close>: the console control events delivered since the
  previous observation (the system runs \<^verbatim>\<open>CtrlHandler\<close> on each, on a thread of its
  own), the reading of the steady clock at this moment, and the result a
  \<^verbatim>\<open>WriteFile\<close> issued at this moment has. An observation uses the fields it asks for
  and ignores the others.\<close>

record tick =
  ctrl :: "DWORD list"
  clock :: time_point
  WriteFile :: winres

subsection \<open>Program state\<close>

text \<open>One \<^verbatim>\<open>WriteFile\<close> call: the time stamp \<^verbatim>\<open>now\<close> of its cycle (line 162), the
  reading the steady clock has when the call is issued (the program does not read it;
  it is the clock of the tick the call consumes), the value of \<^verbatim>\<open>n\<close> it formatted, the
  bytes handed to the channel and whether the call succeeded.\<close>

record send =
  sent_at :: time_point
  issued_at :: time_point
  sent_val :: cint
  sent_bytes :: string
  sent_ok :: bool

text \<open>The variables of \<^verbatim>\<open>main\<close> that live across the loop (\<open>val_n\<close> is the source's
  \<^verbatim>\<open>n\<close>), the global stop flag, and the record of what the process did.\<close>

record state =
  val_n :: cint
  messages_sent :: "32 word"
  last_send_time :: time_point
  last_print_time :: time_point
  now :: time_point
  gStopRequested :: bool
  opens :: nat
  closes :: nat
  sent :: "send list"
  stdout :: string
  stderr :: string

definition init_state :: state where
  "init_state = \<lparr> val_n = 0, messages_sent = 0, last_send_time = 0, last_print_time = 0,
     now = 0, gStopRequested = False, opens = 0, closes = 0, sent = [],
     stdout = [], stderr = [] \<rparr>"

text \<open>Where the loop stands when the observed ticks run out: the line of
  \<^verbatim>\<open>main.cpp\<close> whose observation comes next.\<close>

datatype pc = L157 | L159 | L162 | L168

text \<open>How a run ends: the process exits with a code; or it evaluates \<^verbatim>\<open>1000 / 0\<close>, an
  integer division by zero (undefined in C++, a hardware trap on the targets); or the
  observed ticks ran out while it was still running, either before the first clock
  reading of line 150 (\<open>Setup\<close>) or inside the loop.\<close>

datatype outcome = Exit int | DivideByZero | Setup | Running pc

subsection \<open>\<^verbatim>\<open>CtrlHandler\<close> and \<^verbatim>\<open>error_string\<close>\<close>

text \<open>The handler, on the flag: the new value of \<^verbatim>\<open>gStopRequested\<close> and the \<^verbatim>\<open>BOOL\<close>
  returned.\<close>

definition CtrlHandler :: "DWORD \<Rightarrow> bool \<Rightarrow> bool \<times> bool" where
  "CtrlHandler ctrlType g =
     (if ctrlType = CTRL_C_EVENT \<or> ctrlType = CTRL_BREAK_EVENT \<or> ctrlType = CTRL_CLOSE_EVENT
         \<or> ctrlType = CTRL_LOGOFF_EVENT \<or> ctrlType = CTRL_SHUTDOWN_EVENT
      then (True, True) else (g, False))"

definition deliver :: "tick \<Rightarrow> state \<Rightarrow> state" where
  "deliver t s = s\<lparr>gStopRequested := fold (\<lambda>c g. fst (CtrlHandler c g)) (ctrl t) (gStopRequested s)\<rparr>"

definition strip_crlf :: "string \<Rightarrow> string" where
  "strip_crlf r = rev (dropWhile (\<lambda>c. c = CHR 0x0D \<or> c = CHR 0x0A) (rev r))"

definition error_string :: "os \<Rightarrow> DWORD \<Rightarrow> string" where
  "error_string sys error_code =
     (case FormatMessageA sys error_code of
        None \<Rightarrow> ''Unknown error ('' @ dec_digits (uint error_code) @ '')''
      | Some buffer \<Rightarrow> strip_crlf buffer)"

subsection \<open>The send loop (lines 157 to 185)\<close>

definition format_msg :: "cint \<Rightarrow> string" where
  "format_msg v = ''#'' @ dec_int (sint v) @ '','' @ dec_int (sint v) @ '',''
                      @ dec_int (sint v) @ '','' @ dec_int (sint v) @ '';''"

definition status_print :: "state \<Rightarrow> state" where
  "status_print s =
     (if now s - last_print_time s > 2000000000
      then s\<lparr>stdout := stdout s @ [CHR 0x0D] @ replicate 120 CHR '' ''
                  @ [CHR 0x0D] @ ''Messages sent: '' @ dec_digits (uint (messages_sent s)),
             last_print_time := now s\<rparr>
      else s)"

text \<open>\<open>run_loop\<close> takes \<^verbatim>\<open>sleep_time_ms.count()\<close>, the port name and the place in the
  loop. Line 157 reads the stop flag; line 159 reads the clock and either yields and
  polls again or leaves the busy wait; line 162 reads the clock into \<^verbatim>\<open>now\<close>; line 168
  formats the frame and calls \<^verbatim>\<open>WriteFile\<close>. Durations are compared in nanoseconds,
  the common type of \<^verbatim>\<open>steady_clock::duration\<close> and \<^verbatim>\<open>milliseconds\<close>.\<close>

fun run_loop :: "os \<Rightarrow> string \<Rightarrow> int \<Rightarrow> pc \<Rightarrow> state \<Rightarrow> tick list \<Rightarrow> outcome \<times> state" where
  "run_loop sys comport sleep_time_ms l s [] = (Running l, s)"
| "run_loop sys comport sleep_time_ms L157 s (t # ts) =
     (let s = deliver t s in
      if \<not> gStopRequested s then run_loop sys comport sleep_time_ms L159 s ts
      else (Exit EXIT_SUCCESS,
            s\<lparr>stdout := stdout s @ endl @ ''Got ctrl+c, exiting...'' @ endl,
              closes := closes s + 1\<rparr>))"
| "run_loop sys comport sleep_time_ms L159 s (t # ts) =
     (let s = deliver t s in
      if clock t - last_send_time s < sleep_time_ms * 1000000
      then run_loop sys comport sleep_time_ms L159 s ts
      else run_loop sys comport sleep_time_ms L162 s ts)"
| "run_loop sys comport sleep_time_ms L162 s (t # ts) =
     (let s = deliver t s;
          s = s\<lparr>now := clock t, last_send_time := clock t\<rparr>
      in run_loop sys comport sleep_time_ms L168 s ts)"
| "run_loop sys comport sleep_time_ms L168 s (t # ts) =
     (let s = deliver t s;
          msg = format_msg (val_n s)
      in case WriteFile t of
           Inl e \<Rightarrow>
             (Exit EXIT_FAILURE,
              s\<lparr>sent := sent s @ [\<lparr>sent_at = now s, issued_at = clock t, sent_val = val_n s,
                                   sent_bytes = msg, sent_ok = False\<rparr>],
                stderr := stderr s @ ''Failed to write to '' @ comport @ '' with error: ''
                            @ error_string sys e @ endl,
                closes := closes s + 1\<rparr>)
         | Inr _ \<Rightarrow>
             (let s = s\<lparr>sent := sent s @ [\<lparr>sent_at = now s, issued_at = clock t, sent_val = val_n s,
                                   sent_bytes = msg, sent_ok = True\<rparr>],
                        val_n := val_n s * (- 1),
                        messages_sent := messages_sent s + 1\<rparr>
              in run_loop sys comport sleep_time_ms L157 (status_print s) ts))"

subsection \<open>\<^verbatim>\<open>main\<close> (lines 53 to 192)\<close>

definition usage :: string where
  "usage = ''Usage: excserial COM3 10 500 [Pulses with 10 pulses alternating +/- at 500 Hz]''"

text \<open>Lines 147 to 154: the counter starts at 0, the first clock reading becomes
  \<^verbatim>\<open>last_send_time\<close> and \<^verbatim>\<open>last_print_time\<close>, the run is announced, and the loop is
  entered at line 157. The console control events of the first tick are those delivered
  since the handler was registered.\<close>

definition setup_send_loop ::
    "os \<Rightarrow> string \<Rightarrow> cint \<Rightarrow> int \<Rightarrow> state \<Rightarrow> tick list \<Rightarrow> outcome \<times> state" where
  "setup_send_loop sys comport f sleep_time_ms s ticks =
     (case ticks of
        [] \<Rightarrow> (Setup, s)
      | t # ts \<Rightarrow>
         (let s = deliver t s;
              s = s\<lparr>messages_sent := 0, last_send_time := clock t, last_print_time := clock t\<rparr>;
              s = s\<lparr>stdout := stdout s @ ''Sending [+/-] '' @ dec_int (sint (val_n s))
                    @ '' to '' @ comport @ '' with '' @ dec_int (sint f) @ ''Hz (''
                    @ dec_int sleep_time_ms @ '' ms)...'' @ endl\<rparr>
          in run_loop sys comport sleep_time_ms L157 s ts))"

text \<open>Lines 93 to 145, entered with both numbers parsed and the period computed: open
  the port, register the handler, read the line settings, set the time-outs. The
  \<^verbatim>\<open>DCB\<close> structure is filled in but never handed back to the system (there is no
  \<^verbatim>\<open>SetCommState\<close> call), so it has no effect and is left out. On the time-out failure
  path \<^verbatim>\<open>CloseHandle\<close> runs before \<^verbatim>\<open>GetLastError\<close>; the code reported is taken to be the
  one of \<^verbatim>\<open>SetCommTimeouts\<close>.\<close>

definition startup ::
    "os \<Rightarrow> string list \<Rightarrow> cint \<Rightarrow> int \<Rightarrow> state \<Rightarrow> tick list \<Rightarrow> outcome \<times> state" where
  "startup sys argv f sleep_time_ms s ticks =
     (let comport = argv ! 1 in
      case CreateFile sys comport of
        Inl e \<Rightarrow>
          (Exit EXIT_FAILURE,
           s\<lparr>stderr := stderr s @ ''CreateFile failed with error: '' @ error_string sys e @ endl\<rparr>)
      | Inr _ \<Rightarrow>
         (let s = s\<lparr>opens := opens s + 1\<rparr> in
          case SetConsoleCtrlHandler sys of
            Inl e \<Rightarrow>
              (Exit EXIT_FAILURE,
               s\<lparr>stderr := stderr s @ ''Failed to set control handler: '' @ error_string sys e @ endl\<rparr>)
          | Inr _ \<Rightarrow>
             (let s = (case GetCommState sys of
                         Inl e \<Rightarrow> s\<lparr>stderr := stderr s @ ''GetCommState filed with error ''
                                           @ error_string sys e @ endl\<rparr>
                       | Inr _ \<Rightarrow> s);
                  s = s\<lparr>stdout := stdout s @ ''Serial port successfully configured!'' @ endl\<rparr>
              in case SetCommTimeouts sys of
                   Inl e \<Rightarrow>
                     (Exit EXIT_FAILURE,
                      s\<lparr>closes := closes s + 1,
                        stderr := stderr s @ ''Could not set timeouts with error: ''
                                    @ error_string sys e @ endl\<rparr>)
                 | Inr _ \<Rightarrow> setup_send_loop sys comport f sleep_time_ms s ticks)))"

text \<open>Lines 53 to 91: the argument count, the two extractions, the upper bound on the
  frequency, and the period \<^verbatim>\<open>sleep_time_ms{1000 / f}\<close>. C++ integer division truncates
  towards zero (\<open>sdiv\<close>) and is undefined for a zero divisor, which \<open>main\<close> tests before
  it divides; the quotient of 1000 always fits an \<^verbatim>\<open>int\<close>.\<close>

definition sleep_time_ms :: "cint \<Rightarrow> int" where
  "sleep_time_ms f = 1000 sdiv sint f"

definition main :: "string list \<Rightarrow> os \<Rightarrow> tick list \<Rightarrow> outcome \<times> state" where
  "main argv sys ticks =
     (if length argv < 4 then (Exit EXIT_SUCCESS, init_state\<lparr>stdout := usage @ endl\<rparr>)
      else
        (let s = init_state\<lparr>stdout := ''Starting excserial program...'' @ endl\<rparr> in
         case extract_int (argv ! 2) of
           None \<Rightarrow>
             (Exit EXIT_FAILURE,
              s\<lparr>stderr := stderr s @ ''Can't convert arg '' @ argv ! 2 @ '' to number!'' @ endl\<rparr>)
         | Some n \<Rightarrow>
            (let s = s\<lparr>val_n := n\<rparr> in
             case extract_int (argv ! 3) of
               None \<Rightarrow>
                 (Exit EXIT_FAILURE,
                  s\<lparr>stderr := stderr s @ ''Can't convert arg '' @ argv ! 2 @ '' to number!'' @ endl\<rparr>)
             | Some f \<Rightarrow>
                 if 1000 < sint f
                 then (Exit EXIT_FAILURE,
                       s\<lparr>stderr := stderr s @ ''Frequency cant be bigger than 1000'' @ endl\<rparr>)
                 else if f = 0 then (DivideByZero, s)
                 else startup sys argv f (sleep_time_ms f) s ticks)))"

subsection \<open>The decimal numeral of an integer\<close>

text \<open>What "rendered as a decimal integer (no leading zeros, minus sign for negative)"
  means, stated on the characters and independently of \<open>dec_int\<close>: \<open>decimal_of d i\<close> holds
  when \<open>d\<close> is a minus sign exactly if \<open>i\<close> is negative, followed by at least one decimal
  digit, with no leading zero unless the digit stands alone, and the digits, read in base
  ten, are the absolute value of \<open>i\<close>. The program's renderer is compared with it below.\<close>

definition decimal_digit :: "char \<Rightarrow> bool" where
  "decimal_digit c = (c \<in> set ''0123456789'')"

definition decimal_of :: "string \<Rightarrow> int \<Rightarrow> bool" where
  "decimal_of d i =
     (let ds = (if i < 0 then drop 1 d else d) in
      (i < 0 \<longrightarrow> take 1 d = ''-'')
      \<and> ds \<noteq> []
      \<and> list_all decimal_digit ds
      \<and> (1 < length ds \<longrightarrow> hd ds \<noteq> CHR ''0'')
      \<and> foldl (\<lambda>a c. 10 * a + (of_char c - 48)) 0 ds = \<bar>i\<bar>)"

subsection \<open>Concrete environments\<close>

text \<open>A system on which every call succeeds and no error code has a text, and three
  kinds of tick at clock reading \<open>c\<close>: nothing happens and a write would succeed; a
  Ctrl+C was delivered; a write would fail with \<^verbatim>\<open>ERROR_GEN_FAILURE\<close> (31).\<close>

definition sys_ok :: os where
  "sys_ok = \<lparr> FormatMessageA = (\<lambda>_. None), CreateFile = (\<lambda>_. Inr ()),
     SetConsoleCtrlHandler = Inr (), GetCommState = Inr (), SetCommTimeouts = Inr () \<rparr>"

definition quiet :: "time_point \<Rightarrow> tick" where
  "quiet c = \<lparr> ctrl = [], clock = c, WriteFile = Inr () \<rparr>"

definition ctrl_c :: "time_point \<Rightarrow> tick" where
  "ctrl_c c = \<lparr> ctrl = [CTRL_C_EVENT], clock = c, WriteFile = Inr () \<rparr>"

definition write_fails :: "time_point \<Rightarrow> tick" where
  "write_fails c = \<lparr> ctrl = [], clock = c, WriteFile = Inl 31 \<rparr>"

text \<open>One full cycle of the loop at period \<open>p\<close> nanoseconds, started at time \<open>c\<close>: the
  stop flag is read, the busy wait polls once too early and once on time, the clock is
  read into \<^verbatim>\<open>now\<close>, the write is issued.\<close>

definition cycle :: "time_point \<Rightarrow> int \<Rightarrow> tick list" where
  "cycle c p = [quiet c, quiet c, quiet (c + p), quiet (c + p), quiet (c + p)]"

text \<open>The arguments of a run at magnitude 20 and 100 Hz (a period of 10 ms, that is
  \<open>period10\<close> nanoseconds), and two scripts for it: two full cycles; four full cycles
  and a fifth whose write fails.\<close>

definition args20 :: "string list" where
  "args20 = [''excserial'', ''COM7'', ''20'', ''100'']"

definition period10 :: int where
  "period10 = 10000000"

definition two_cycles :: "tick list" where
  "two_cycles = quiet 0 # cycle 0 period10 @ cycle period10 period10"

definition fifth_write_fails :: "tick list" where
  "fifth_write_fails = quiet 0 # cycle 0 period10 @ cycle period10 period10
     @ cycle (2 * period10) period10 @ cycle (3 * period10) period10
     @ [quiet (4 * period10), quiet (5 * period10), quiet (5 * period10),
        write_fails (5 * period10)]"

text \<open>A Ctrl+C that arrives while the busy wait of the first cycle is polling, and the
  ticks that finish that cycle: the wait ends, the clock is read, the write succeeds,
  the stop flag is read.\<close>

definition stop_in_wait :: "tick list" where
  "stop_in_wait = [quiet 0, quiet 0, ctrl_c 0]"

definition rest_of_cycle :: "tick list" where
  "rest_of_cycle = [quiet period10, quiet period10, quiet period10, quiet period10]"

text \<open>Arguments with the least \<^verbatim>\<open>int\<close> as magnitude, with a frequency that is not a
  number, and with frequency 0.\<close>

definition args_int_min :: "string list" where
  "args_int_min = [''excserial'', ''COM7'', ''-2147483648'', ''100'']"

definition args_bad_frequency :: "string list" where
  "args_bad_frequency = [''excserial'', ''COM7'', ''10'', ''abc'']"

definition args_zero_frequency :: "string list" where
  "args_zero_frequency = [''excserial'', ''COM7'', ''10'', ''0'']"

text \<open>One cycle, then a Ctrl+C before the next reading of the stop flag.\<close>

definition one_cycle_then_stop :: "tick list" where
  "one_cycle_then_stop = quiet 0 # cycle 0 period10 @ [ctrl_c period10]"

text \<open>Arguments at magnitude 15, and a script for 100 Hz on which the first write is
  issued 9 ms after its cycle took the time stamp: the clock reads 10 ms at the stamp of
  the first cycle and 19 ms when its \<^verbatim>\<open>WriteFile\<close> is called; the second cycle stamps and
  writes at 20 ms.\<close>

definition args15 :: "string list" where
  "args15 = [''excserial'', ''COM7'', ''15'', ''100'']"

definition late_write :: "tick list" where
  "late_write = [quiet 0,
     quiet 0, quiet 10000000, quiet 10000000, quiet 19000000,
     quiet 19000000, quiet 20000000, quiet 20000000, quiet 20000000]"

subsection \<open>Predicates on a sequence of sends\<close>

text \<open>\<open>alternates v es\<close>: the sends \<open>es\<close> carry \<open>v\<close>, then \<open>v * -1\<close>, and so on, each as the
  frame of its value, and a failed send is the last one.\<close>

fun alternates :: "cint \<Rightarrow> send list \<Rightarrow> bool" where
  "alternates v [] = True"
| "alternates v (e # es) =
     (sent_val e = v \<and> sent_bytes e = format_msg v
      \<and> (if sent_ok e then alternates (v * (- 1)) es else es = []))"

text \<open>\<open>spaced d t0 es\<close>: the first send of \<open>es\<close> is stamped at least \<open>d\<close> after \<open>t0\<close>, and
  each later one at least \<open>d\<close> after the one before it.\<close>

fun spaced :: "int \<Rightarrow> time_point \<Rightarrow> send list \<Rightarrow> bool" where
  "spaced d t0 [] = True"
| "spaced d t0 (e # es) = (d \<le> sent_at e - t0 \<and> spaced d (sent_at e) es)"

section \<open>Properties\<close>

subsection \<open>Machine arithmetic\<close>

lemma sdiv_pos: "0 < b \<Longrightarrow> (1000::int) sdiv b = 1000 div b"
  by (simp add: signed_divide_int_def)

lemma sint_neg: "sint v \<noteq> - (2 ^ 31) \<Longrightarrow> sint (- v) = - sint v" for v :: "32 word"
proof -
  assume a: "sint v \<noteq> - (2 ^ 31)"
  have "- (2 ^ 31) \<le> sint v" "sint v < 2 ^ 31"
    using sint_ge [of v] sint_lt [of v] by simp_all
  with a have "- (2 ^ 31) \<le> - sint v \<and> - sint v < 2 ^ 31"
    by linarith
  then show ?thesis
    by (simp add: sint_word_minus signed_take_bit_int_eq_self)
qed

lemma sint_neg_min: "sint v = - (2 ^ 31) \<Longrightarrow> - v = v" for v :: "32 word"
proof -
  assume "sint v = - (2 ^ 31)"
  then have "sint v = sint (- (2 ^ 31) :: 32 word)" by simp
  then have "v = - (2 ^ 31)" by (rule signed_word_eqI)
  then show ?thesis by simp
qed

lemma abs_sint_neg: "\<bar>sint (- v)\<bar> = \<bar>sint v\<bar>" for v :: "32 word"
  by (cases "sint v = - (2 ^ 31)") (simp_all add: sint_neg sint_neg_min)

lemma abs_sint_flip: "\<bar>sint (v * (- 1) ^ k)\<bar> = \<bar>sint v\<bar>" for v :: "32 word"
  by (cases "even k") (simp_all add: abs_sint_neg)

subsection \<open>The characters of a frame\<close>

lemma digit_char_in: "0 \<le> d \<Longrightarrow> d < 10 \<Longrightarrow> digit_char d \<in> set ''0123456789''"
  unfolding digit_char_def by (rule nth_mem) simp

lemma digit_char_in_small: "k < 10 \<Longrightarrow> digit_char k \<in> set ''0123456789''"
  unfolding digit_char_def by (rule nth_mem) simp

lemma dec_digits_chars: "set (dec_digits k) \<subseteq> set ''0123456789''"
proof (induction k rule: dec_digits.induct)
  case (1 k)
  show ?case
  proof (cases "k < 10")
    case True
    then show ?thesis
      using digit_char_in_small [OF True] by (subst dec_digits.simps) simp
  next
    case False
    with "1.IH" digit_char_in [of "k mod 10"] show ?thesis
      by (subst dec_digits.simps) simp
  qed
qed

lemma dec_int_chars: "set (dec_int i) \<subseteq> set ''-0123456789''"
proof -
  have "set ''0123456789'' \<subseteq> set ''-0123456789''" by simp
  then have d: "set (dec_digits j) \<subseteq> set ''-0123456789''" for j
    using dec_digits_chars [of j] by (rule order_trans [rotated])
  have m: "CHR ''-'' \<in> set ''-0123456789''" by simp
  show ?thesis
  proof (cases "i < 0")
    case True
    then have "set (dec_int i) = insert CHR ''-'' (set (dec_digits (- i)))"
      by (simp add: dec_int_def)
    with m d [of "- i"] show ?thesis by (simp only: insert_subset simp_thms)
  next
    case False
    then have "dec_int i = dec_digits i" by (simp add: dec_int_def)
    with d [of i] show ?thesis by (simp only:)
  qed
qed

lemma format_msg_set:
  "set (format_msg v) = {CHR ''#'', CHR '','', CHR '';''} \<union> set (dec_int (sint v))"
  by (auto simp: format_msg_def)

lemma format_msg_chars: "set (format_msg v) \<subseteq> set ''#,;-0123456789''"
proof -
  have "set ''-0123456789'' \<subseteq> set ''#,;-0123456789''" by simp
  with dec_int_chars [of "sint v"] have "set (dec_int (sint v)) \<subseteq> set ''#,;-0123456789''"
    by (rule subset_trans)
  moreover have "{CHR ''#'', CHR '','', CHR '';''} \<subseteq> set ''#,;-0123456789''" by simp
  ultimately show ?thesis unfolding format_msg_set by (rule Un_least [rotated])
qed

lemma format_msg_no_newline: "CHR 0x0A \<notin> set (format_msg v)"
proof
  assume "CHR 0x0A \<in> set (format_msg v)"
  with format_msg_chars [of v] have "CHR 0x0A \<in> set ''#,;-0123456789''" by (rule subsetD)
  then show False by simp
qed

lemma format_msg_20: "format_msg (20 * (- 1) ^ k) = (if even k then ''#20,20,20,20;'' else ''#-20,-20,-20,-20;'')"
proof (cases "even k")
  case True
  have "format_msg 20 = ''#20,20,20,20;''" by code_simp
  with True show ?thesis by simp
next
  case False
  have "format_msg (- 20) = ''#-20,-20,-20,-20;''" by code_simp
  with False show ?thesis by simp
qed

subsection \<open>The renderer yields the decimal numeral, and the extraction reads it back\<close>

lemma small_int_cases:
  "0 \<le> d \<Longrightarrow> d < 10 \<Longrightarrow>
     d = 0 \<or> d = 1 \<or> d = 2 \<or> d = 3 \<or> d = 4 \<or> d = 5 \<or> d = 6 \<or> d = 7 \<or> d = 8 \<or> d = (9::int)"
  by arith

lemma digit_char_value: "0 \<le> d \<Longrightarrow> d < 10 \<Longrightarrow> of_char (digit_char d) - 48 = d"
  by (drule (1) small_int_cases) (auto simp: digit_char_def)

lemma digit_char_zero: "0 \<le> d \<Longrightarrow> d < 10 \<Longrightarrow> digit_char d = CHR ''0'' \<Longrightarrow> d = 0"
  using digit_char_value [of d] by simp

lemma dec_digits_nonempty: "dec_digits k \<noteq> []"
  by (subst dec_digits.simps) simp

lemma dec_digits_value:
  "0 \<le> k \<Longrightarrow> foldl (\<lambda>a c. 10 * a + (of_char c - 48)) 0 (dec_digits k) = k"
proof (induction k rule: dec_digits.induct)
  case (1 k)
  show ?case
  proof (cases "k < 10")
    case True
    with "1.prems" show ?thesis
      by (subst dec_digits.simps) (simp add: digit_char_value)
  next
    case False
    with "1.prems" have "0 \<le> k div 10" by simp
    with "1.IH" False
    have "foldl (\<lambda>a c. 10 * a + (of_char c - 48)) 0 (dec_digits (k div 10)) = k div 10"
      by simp
    with False show ?thesis
      by (subst dec_digits.simps) (simp add: digit_char_value)
  qed
qed

lemma dec_digits_hd: "0 < k \<Longrightarrow> hd (dec_digits k) \<noteq> CHR ''0''"
proof (induction k rule: dec_digits.induct)
  case (1 k)
  show ?case
  proof (cases "k < 10")
    case True
    with "1.prems" digit_char_zero [of k] show ?thesis
      by (subst dec_digits.simps) auto
  next
    case False
    then have "0 < k div 10" by simp
    with "1.IH" False have "hd (dec_digits (k div 10)) \<noteq> CHR ''0''" by simp
    with False show ?thesis
      by (subst dec_digits.simps) (simp add: dec_digits_nonempty)
  qed
qed

lemma dec_digits_long: "1 < length (dec_digits k) \<Longrightarrow> 10 \<le> k"
  by (subst (asm) dec_digits.simps) (simp split: if_splits)

lemma dec_digits_decimal: "0 \<le> k \<Longrightarrow> decimal_of (dec_digits k) k"
proof -
  assume k: "0 \<le> k"
  have "list_all decimal_digit (dec_digits k)"
    unfolding list_all_iff decimal_digit_def using dec_digits_chars [of k] by blast
  moreover have "hd (dec_digits k) \<noteq> CHR ''0''" if "1 < length (dec_digits k)"
    using dec_digits_long [OF that] by (intro dec_digits_hd) simp
  ultimately show ?thesis
    using k by (simp add: decimal_of_def dec_digits_nonempty dec_digits_value)
qed

lemma dec_int_decimal: "decimal_of (dec_int i) i"
proof (cases "i < 0")
  case True
  then have "decimal_of (dec_digits (- i)) (- i)" by (intro dec_digits_decimal) simp
  with True show ?thesis
    by (simp add: decimal_of_def dec_int_def Let_def)
next
  case False
  then have "decimal_of (dec_digits i) i" by (intro dec_digits_decimal) simp
  with False show ?thesis by (simp add: dec_int_def)
qed


lemma digit_cases:
  "decimal_digit c \<Longrightarrow>
     c = CHR ''0'' \<or> c = CHR ''1'' \<or> c = CHR ''2'' \<or> c = CHR ''3'' \<or> c = CHR ''4''
     \<or> c = CHR ''5'' \<or> c = CHR ''6'' \<or> c = CHR ''7'' \<or> c = CHR ''8'' \<or> c = CHR ''9''"
  by (simp add: decimal_digit_def)

lemma digit_range:
  "decimal_digit c \<Longrightarrow> 0 \<le> (of_char c - 48 :: int) \<and> (of_char c - 48 :: int) < 10"
  by (drule digit_cases) (elim disjE; simp)

lemma digit_zero:
  "decimal_digit c \<Longrightarrow> (of_char c - 48 :: int) = 0 \<Longrightarrow> c = CHR ''0''"
  by (drule digit_cases) (elim disjE; simp)

lemma digit_not_space:
  "decimal_digit c \<Longrightarrow>
     \<not> isspace c \<and> isdigit c \<and> c \<noteq> CHR ''-'' \<and> c \<noteq> CHR ''+''"
  by (drule digit_cases) (elim disjE; simp add: isspace_def isdigit_def)

lemma last_digit_split:
  "10 * a + x = 10 * b + y \<Longrightarrow> 0 \<le> x \<Longrightarrow> x < 10 \<Longrightarrow> 0 \<le> y \<Longrightarrow> y < 10 \<Longrightarrow>
     x = y \<and> a = (b::int)"
  by arith

lemma value_pos:
  "list_all decimal_digit xs \<Longrightarrow> xs \<noteq> [] \<Longrightarrow> hd xs \<noteq> CHR ''0'' \<Longrightarrow>
     0 < foldl (\<lambda>a c. 10 * a + (of_char c - 48)) (0::int) xs"
proof (induction xs rule: rev_induct)
  case Nil
  then show ?case by simp
next
  case (snoc x xs)
  from snoc.prems(1) have x: "decimal_digit x" by simp
  from snoc.prems(1) have xs: "list_all decimal_digit xs"
    by simp
  note r = digit_range [OF x]
  show ?case
  proof (cases "xs = []")
    case True
    with snoc.prems(3) have "x \<noteq> CHR ''0''" by simp
    with digit_zero [OF x] have "(of_char x - 48 :: int) \<noteq> 0" by blast
    with r have "0 < (of_char x - 48 :: int)" by linarith
    with True show ?thesis by simp
  next
    case False
    with snoc.prems(3) have "hd xs \<noteq> CHR ''0''" by simp
    from snoc.IH [OF xs False this] r show ?thesis
      by (simp only: foldl_append foldl.simps) linarith
  qed
qed

lemma canonical_unique:
  assumes "list_all decimal_digit xs" "list_all decimal_digit ys"
    and "xs \<noteq> [] \<longrightarrow> hd xs \<noteq> CHR ''0''" "ys \<noteq> [] \<longrightarrow> hd ys \<noteq> CHR ''0''"
    and "foldl (\<lambda>a c. 10 * a + (of_char c - 48)) (0::int) xs
       = foldl (\<lambda>a c. 10 * a + (of_char c - 48)) (0::int) ys"
  shows "xs = ys"
  using assms
proof (induction xs arbitrary: ys rule: rev_induct)
  case Nil
  show ?case
  proof (rule ccontr)
    assume "[] \<noteq> ys"
    then have ne: "ys \<noteq> []" by simp
    with Nil.prems(4) have "hd ys \<noteq> CHR ''0''" by blast
    from value_pos [OF Nil.prems(2) ne this] Nil.prems(5) show False
      by simp
  qed
next
  case (snoc x xs)
  from snoc.prems(1) have x: "decimal_digit x" by simp
  from snoc.prems(1) have xs: "list_all decimal_digit xs"
    by simp
  have "xs @ [x] \<noteq> []" by simp
  moreover with snoc.prems(3) have "hd (xs @ [x]) \<noteq> CHR ''0''" by blast
  ultimately have pos: "0 < foldl (\<lambda>a c. 10 * a + (of_char c - 48)) (0::int) (xs @ [x])"
    using value_pos [OF snoc.prems(1)] by blast
  show ?case
  proof (cases ys rule: rev_cases)
    case Nil
    with snoc.prems(5) pos show ?thesis by simp
  next
    case (snoc ys' y)
    with snoc.prems(2) have y: "decimal_digit y"
      by simp
    from snoc snoc.prems(2) have ys': "list_all decimal_digit ys'"
      by simp
    from snoc.prems(5) snoc
    have "10 * foldl (\<lambda>a c. 10 * a + (of_char c - 48)) (0::int) xs + (of_char x - 48)
        = 10 * foldl (\<lambda>a c. 10 * a + (of_char c - 48)) (0::int) ys' + (of_char y - 48)"
      by (simp only: foldl_append foldl.simps)
    from last_digit_split [OF this] digit_range [OF x] digit_range [OF y]
    have dig: "(of_char x - 48 :: int) = of_char y - 48"
      and rest: "foldl (\<lambda>a c. 10 * a + (of_char c - 48)) (0::int) xs
               = foldl (\<lambda>a c. 10 * a + (of_char c - 48)) (0::int) ys'"
      by blast+
    from dig have xy: "x = y" by simp
    from snoc.prems(3) have hx: "xs \<noteq> [] \<longrightarrow> hd xs \<noteq> CHR ''0''" by (cases xs) simp_all
    from snoc.prems(4) snoc have hy: "ys' \<noteq> [] \<longrightarrow> hd ys' \<noteq> CHR ''0''" by (cases ys') simp_all
    from snoc.IH [OF xs ys' hx hy rest] xy snoc show ?thesis by simp
  qed
qed

lemma decimal_digits_unique:
  assumes "list_all decimal_digit xs" "list_all decimal_digit ys"
    and "xs \<noteq> []" "ys \<noteq> []"
    and "1 < length xs \<longrightarrow> hd xs \<noteq> CHR ''0''" "1 < length ys \<longrightarrow> hd ys \<noteq> CHR ''0''"
    and "foldl (\<lambda>a c. 10 * a + (of_char c - 48)) (0::int) xs
       = foldl (\<lambda>a c. 10 * a + (of_char c - 48)) (0::int) ys"
  shows "xs = ys"
proof -
  have zero: "zs = ''0''"
    if "zs \<noteq> []" "1 < length zs \<longrightarrow> hd zs \<noteq> CHR ''0''" "hd zs = CHR ''0''" for zs
  proof -
    from that obtain z where "zs = [z]" by (cases zs) auto
    with that(3) show ?thesis by simp
  qed
  have v0: "foldl (\<lambda>a c. 10 * a + (of_char c - 48)) (0::int) ''0'' = 0" by simp
  show ?thesis
  proof (cases "hd xs = CHR ''0''")
    case True
    from zero [OF assms(3,5) True] have x0: "xs = ''0''" .
    have "hd ys = CHR ''0''"
    proof (rule ccontr)
      assume "hd ys \<noteq> CHR ''0''"
      from value_pos [OF assms(2,4) this] assms(7) x0 v0 show False by simp
    qed
    from zero [OF assms(4,6) this] x0 show ?thesis by (simp only:)
  next
    case False
    have "hd ys \<noteq> CHR ''0''"
    proof
      assume "hd ys = CHR ''0''"
      from zero [OF assms(4,6) this] have "ys = ''0''" .
      with value_pos [OF assms(1,3) False] assms(7) v0 show False by simp
    qed
    with False show ?thesis
      using canonical_unique [OF assms(1,2) _ _ assms(7)] by blast
  qed
qed

lemma decimal_ofD:
  "decimal_of d i \<Longrightarrow>
     (i < 0 \<longrightarrow> take 1 d = ''-'')
     \<and> (if i < 0 then drop 1 d else d) \<noteq> []
     \<and> list_all decimal_digit (if i < 0 then drop 1 d else d)
     \<and> (1 < length (if i < 0 then drop 1 d else d) \<longrightarrow> hd (if i < 0 then drop 1 d else d) \<noteq> CHR ''0'')
     \<and> foldl (\<lambda>a c. 10 * a + (of_char c - 48)) 0 (if i < 0 then drop 1 d else d) = \<bar>i\<bar>"
  unfolding decimal_of_def Let_def .

lemma decimal_of_unique:
  assumes "decimal_of d i" and "decimal_of d' i"
  shows "d = d'"
proof -
  let ?ds = "if i < 0 then drop 1 d else d" and ?ds' = "if i < 0 then drop 1 d' else d'"
  note a = decimal_ofD [OF assms(1)] and b = decimal_ofD [OF assms(2)]
  from a b have "foldl (\<lambda>a c. 10 * a + (of_char c - 48)) (0::int) ?ds
      = foldl (\<lambda>a c. 10 * a + (of_char c - 48)) (0::int) ?ds'" by (simp only:)
  with a b have eq: "?ds = ?ds'"
    by (intro decimal_digits_unique) blast+
  show ?thesis
  proof (cases "i < 0")
    case True
    with eq have "drop 1 d = drop 1 d'" by (simp only: if_True)
    moreover from a b True have "take 1 d = take 1 d'" by simp
    ultimately show ?thesis by (metis append_take_drop_id)
  next
    case False
    with eq show ?thesis by (simp only: if_False)
  qed
qed

lemma extract_int_minus:
  "ds \<noteq> [] \<Longrightarrow> takeWhile isdigit ds = ds \<Longrightarrow> - (2 ^ 31) \<le> - digits_val ds \<Longrightarrow>
     0 \<le> digits_val ds \<Longrightarrow>
     extract_int (CHR ''-'' # ds) = Some (word_of_int (- digits_val ds))"
  by (simp add: extract_int_def Let_def isspace_def del: takeWhile_eq_all_conv)

lemma extract_int_plain:
  "\<not> isspace c \<Longrightarrow> c \<noteq> CHR ''-'' \<Longrightarrow> c \<noteq> CHR ''+'' \<Longrightarrow>
     takeWhile isdigit (c # cs) = c # cs \<Longrightarrow>
     digits_val (c # cs) < 2 ^ 31 \<Longrightarrow> 0 \<le> digits_val (c # cs) \<Longrightarrow>
     extract_int (c # cs) = Some (word_of_int (digits_val (c # cs)))"
  by (simp add: extract_int_def Let_def)

lemma decimal_of_extract:
  assumes "decimal_of d i" and "- (2 ^ 31) \<le> i" and "i < 2 ^ 31"
  shows "extract_int d = Some (word_of_int i)"
proof -
  define ds where "ds = (if i < 0 then drop 1 d else d)"
  from decimal_ofD [OF assms(1)]
  have ne: "ds \<noteq> []" and dig: "list_all decimal_digit ds"
    and val: "foldl (\<lambda>a c. 10 * a + (of_char c - 48)) 0 ds = \<bar>i\<bar>"
    and sign: "i < 0 \<longrightarrow> take 1 d = ''-''"
    unfolding ds_def by blast+
  from dig have "\<forall>c \<in> set ds. isdigit c"
    unfolding list_all_iff using digit_not_space by blast
  then have tw: "takeWhile isdigit ds = ds" by (simp only: takeWhile_eq_all_conv)
  have dv: "digits_val ds = \<bar>i\<bar>"
    using val by (simp only: digits_val_def digit_val_def)
  show ?thesis
  proof (cases "i < 0")
    case True
    with sign have "take 1 d = ''-''" by blast
    moreover have "d = take 1 d @ drop 1 d" by simp
    ultimately have d: "d = CHR ''-'' # ds"
      using True by (simp only: ds_def if_True append_Cons append_Nil)
    from True dv have v: "- digits_val ds = i" by simp
    with assms(2) have "- (2 ^ 31) \<le> - digits_val ds" by (simp only:)
    moreover from dv have "0 \<le> digits_val ds" by simp
    ultimately have "extract_int (CHR ''-'' # ds) = Some (word_of_int (- digits_val ds))"
      using ne tw by (intro extract_int_minus)
    with d v show ?thesis by (simp only:)
  next
    case False
    then have d: "d = ds" by (simp add: ds_def)
    from ne obtain c cs where cs: "ds = c # cs" by (cases ds) auto
    with dig have "decimal_digit c" by simp
    note c = digit_not_space [OF this]
    from False dv have v: "digits_val ds = i" by simp
    with assms(3) False have "digits_val (c # cs) < 2 ^ 31" "0 \<le> digits_val (c # cs)"
      unfolding cs by simp_all
    moreover from tw have "takeWhile isdigit (c # cs) = c # cs" by (simp only: cs)
    ultimately have "extract_int (c # cs) = Some (word_of_int (digits_val (c # cs)))"
      using c by (intro extract_int_plain) blast+
    with d v cs show ?thesis by (simp only:)
  qed
qed

subsection \<open>What the handler and the status print leave alone\<close>

lemma deliver_fields [simp]:
  "val_n (deliver t s) = val_n s" "messages_sent (deliver t s) = messages_sent s"
  "last_send_time (deliver t s) = last_send_time s"
  "last_print_time (deliver t s) = last_print_time s"
  "now (deliver t s) = now s" "opens (deliver t s) = opens s" "closes (deliver t s) = closes s"
  "sent (deliver t s) = sent s" "stdout (deliver t s) = stdout s" "stderr (deliver t s) = stderr s"
  by (simp_all add: deliver_def)

lemma status_print_fields [simp]:
  "val_n (status_print s) = val_n s" "messages_sent (status_print s) = messages_sent s"
  "last_send_time (status_print s) = last_send_time s"
  "now (status_print s) = now s" "opens (status_print s) = opens s"
  "closes (status_print s) = closes s" "sent (status_print s) = sent s"
  "stderr (status_print s) = stderr s" "gStopRequested (status_print s) = gStopRequested s"
  by (simp_all add: status_print_def)

text \<open>The stop flag has no reset path: the handler only ever sets it.\<close>

lemma fold_CtrlHandler_True: "fold (\<lambda>c g. fst (CtrlHandler c g)) cs True = True"
  by (induction cs) (simp_all add: CtrlHandler_def)

lemma deliver_keeps_stop: "gStopRequested s \<Longrightarrow> gStopRequested (deliver t s)"
  by (simp add: deliver_def fold_CtrlHandler_True)

subsection \<open>The loop sends alternating values and counts the successes\<close>

lemma run_loop_alternates:
  "run_loop sys comport p l s ticks = (r, s') \<Longrightarrow>
     \<exists>es. sent s' = sent s @ es \<and> alternates (val_n s) es
        \<and> val_n s' = val_n s * (- 1) ^ length (filter sent_ok es)
        \<and> messages_sent s' = messages_sent s + of_nat (length (filter sent_ok es))
        \<and> (\<not> list_all sent_ok es \<longrightarrow> r = Exit EXIT_FAILURE)"
proof (induction ticks arbitrary: l s)
  case Nil
  then show ?case by simp
next
  case (Cons t ts)
  show ?case
  proof (cases l)
    case L157
    with Cons.prems Cons.IH [of L159 "deliver t s"] show ?thesis
      by (auto simp: Let_def split: if_splits)
  next
    case L159
    with Cons.prems Cons.IH [of L159 "deliver t s"] Cons.IH [of L162 "deliver t s"] show ?thesis
      by (auto simp: Let_def split: if_splits)
  next
    case L162
    with Cons.prems
      Cons.IH [of L168 "deliver t s\<lparr>now := clock t, last_send_time := clock t\<rparr>"]
    show ?thesis
      by (auto simp: Let_def split: if_splits)
  next
    case L168
    show ?thesis
    proof (cases "WriteFile t")
      case (Inl e)
      with L168 Cons.prems show ?thesis
        by (auto simp: Let_def)
    next
      case (Inr u)
      let ?e = "\<lparr>sent_at = now s, issued_at = clock t, sent_val = val_n s,
                 sent_bytes = format_msg (val_n s),
                 sent_ok = True\<rparr>"
      let ?s1 = "status_print ((deliver t s)\<lparr>sent := sent s @ [?e], val_n := val_n s * (- 1),
                  messages_sent := messages_sent s + 1\<rparr>)"
      from Inr L168 Cons.prems have run: "run_loop sys comport p L157 ?s1 ts = (r, s')"
        by (simp add: Let_def)
      from Cons.IH [OF run] obtain es where es:
        "sent s' = sent ?s1 @ es" "alternates (val_n ?s1) es"
        "val_n s' = val_n ?s1 * (- 1) ^ length (filter sent_ok es)"
        "messages_sent s' = messages_sent ?s1 + of_nat (length (filter sent_ok es))"
        "\<not> list_all sent_ok es \<longrightarrow> r = Exit EXIT_FAILURE"
        by blast
      show ?thesis
        apply (rule exI [of _ "?e # es"])
        using es by (simp add: algebra_simps)
    qed
  qed
qed

lemma alternates_nth:
  "alternates v es \<Longrightarrow> k < length es \<Longrightarrow>
     sent_val (es ! k) = v * (- 1) ^ k \<and> sent_bytes (es ! k) = format_msg (sent_val (es ! k))
     \<and> (Suc k < length es \<longrightarrow> sent_ok (es ! k))
     \<and> length (filter sent_ok (take k es)) = k"
proof (induction es arbitrary: v k)
  case Nil
  then show ?case by simp
next
  case (Cons e es)
  show ?case
  proof (cases k)
    case 0
    with Cons.prems show ?thesis by (auto split: if_splits)
  next
    case (Suc j)
    with Cons.prems have ok: "sent_ok e" and alt: "alternates (v * (- 1)) es"
      and j: "j < length es"
      by (auto split: if_splits)
    from Cons.IH [OF alt j] Suc ok show ?thesis
      by (simp add: algebra_simps)
  qed
qed

subsection \<open>From the loop to the whole program\<close>

lemma main_alternates:
  assumes "main argv sys ticks = (r, s')" "4 \<le> length argv" "extract_int (argv ! 2) = Some m"
  shows "alternates m (sent s') \<and> val_n s' = m * (- 1) ^ length (filter sent_ok (sent s'))"
  using assms
  unfolding main_def startup_def setup_send_loop_def init_state_def
  by (auto simp: Let_def split: option.splits sum.splits list.splits if_splits dest!: run_loop_alternates)

lemma main_counts:
  assumes "main argv sys ticks = (r, s')"
  shows "messages_sent s' = of_nat (length (filter sent_ok (sent s')))
     \<and> (\<exists>v. alternates v (sent s'))
     \<and> (\<not> list_all sent_ok (sent s') \<longrightarrow> r = Exit EXIT_FAILURE)"
  using assms
  unfolding main_def startup_def setup_send_loop_def init_state_def
  by (auto simp: Let_def split: option.splits sum.splits list.splits if_splits dest!: run_loop_alternates)

text \<open>A send that failed is the last one, and all before it succeeded.\<close>

lemma failed_send_is_last:
  assumes "alternates v es" "k < length es" "\<not> sent_ok (es ! k)"
  shows "Suc k = length es \<and> length (filter sent_ok es) = k"
proof -
  from alternates_nth [OF assms(1,2)] assms(3)
  have last: "\<not> Suc k < length es" and cnt: "length (filter sent_ok (take k es)) = k"
    by auto
  from last assms(2) have len: "Suc k = length es" by simp
  then have "es = take k es @ [es ! k]"
    by (metis assms(2) take_Suc_conv_app_nth take_all order_refl)
  then have "filter sent_ok es = filter sent_ok (take k es @ [es ! k])" by simp
  with assms(3) cnt len show ?thesis by simp
qed

subsection \<open>The magnitude of the value\<close>

text \<open>C3: in a run whose magnitude argument parses to \<open>m\<close>, the value in every frame, and
  the variable \<^verbatim>\<open>n\<close> at every moment, has the absolute value of \<open>m\<close>. The value is \<open>m\<close>
  times \<open>-1\<close> to the number of writes that succeeded before: only its sign changes, once
  for each successful write and at no other time (not while waiting, not on a failed
  write). The run may have stopped anywhere: \<open>ticks\<close> is any observed prefix.\<close>

theorem magnitude_constant:
  assumes "4 \<le> length argv" and "extract_int (argv ! 2) = Some m"
    and "main argv sys ticks = (r, s)"
  shows "\<bar>sint (val_n s)\<bar> = \<bar>sint m\<bar>
     \<and> val_n s = m * (- 1) ^ length (filter sent_ok (sent s))
     \<and> (\<forall>k<length (sent s). \<bar>sint (sent_val (sent s ! k))\<bar> = \<bar>sint m\<bar>
            \<and> sent_val (sent s ! k) = m * (- 1) ^ length (filter sent_ok (take k (sent s))))"
proof -
  from main_alternates [OF assms(3,1,2)]
  have alt: "alternates m (sent s)" and n: "val_n s = m * (- 1) ^ length (filter sent_ok (sent s))"
    by simp_all
  from n have "\<bar>sint (val_n s)\<bar> = \<bar>sint m\<bar>" by (simp only: abs_sint_flip)
  moreover have "\<bar>sint (sent_val (sent s ! k))\<bar> = \<bar>sint m\<bar>
      \<and> sent_val (sent s ! k) = m * (- 1) ^ length (filter sent_ok (take k (sent s)))"
    if "k < length (sent s)" for k
    using alternates_nth [OF alt that] by (simp add: abs_sint_flip)
  ultimately show ?thesis using n by blast
qed

theorem magnitude_constant_witness:
  "4 \<le> length args20 \<and> extract_int (args20 ! 2) = Some 20
   \<and> length (sent (snd (main args20 sys_ok two_cycles))) = 2
   \<and> \<bar>sint (sent_val (sent (snd (main args20 sys_ok two_cycles)) ! 1))\<bar> = 20"
proof -
  have h1: "4 \<le> length args20" by (simp add: args20_def)
  have h2: "extract_int (args20 ! 2) = Some 20" by code_simp
  have h3: "main args20 sys_ok two_cycles
      = (fst (main args20 sys_ok two_cycles), snd (main args20 sys_ok two_cycles))" by simp
  have len: "length (sent (snd (main args20 sys_ok two_cycles))) = 2" by code_simp
  from len have one: "1 < length (sent (snd (main args20 sys_ok two_cycles)))" by simp
  from magnitude_constant [OF h1 h2 h3] one
  have "\<bar>sint (sent_val (sent (snd (main args20 sys_ok two_cycles)) ! 1))\<bar> = \<bar>sint (20 :: cint)\<bar>"
    by blast
  with h1 h2 len show ?thesis by simp
qed

subsection \<open>The counter of sent messages\<close>

text \<open>C4: at every moment of every run \<^verbatim>\<open>messages_sent\<close> is the number of writes that have
  succeeded so far, as an \<^verbatim>\<open>unsigned int\<close> (that number modulo \<open>2 ^ 32\<close>): it is 0 before
  the first write, one more after each successful write, and unchanged by waiting and by
  a failed write. A failed
  write is the last of the run, which then exits with the failure code; when attempt
  \<open>k + 1\<close> fails the counter stays at \<open>k\<close>. The witness is the run whose fifth write
  fails: the counter is left at 4.\<close>

theorem counter_counts_successes:
  assumes "main argv sys ticks = (r, s)"
  shows "messages_sent s = of_nat (length (filter sent_ok (sent s)))
     \<and> unat (messages_sent s) = length (filter sent_ok (sent s)) mod 2 ^ 32
     \<and> (sent s = [] \<longrightarrow> messages_sent s = 0)
     \<and> (\<forall>k<length (sent s). \<not> sent_ok (sent s ! k) \<longrightarrow>
           Suc k = length (sent s) \<and> messages_sent s = of_nat k \<and> r = Exit EXIT_FAILURE)"
proof -
  from main_counts [OF assms] obtain v where
    cnt: "messages_sent s = of_nat (length (filter sent_ok (sent s)))"
    and alt: "alternates v (sent s)"
    and fail: "\<not> list_all sent_ok (sent s) \<longrightarrow> r = Exit EXIT_FAILURE"
    by blast
  have "Suc k = length (sent s) \<and> messages_sent s = of_nat k \<and> r = Exit EXIT_FAILURE"
    if k: "k < length (sent s)" and bad: "\<not> sent_ok (sent s ! k)" for k
  proof -
    from failed_send_is_last [OF alt k bad] cnt
    have "Suc k = length (sent s)" "messages_sent s = of_nat k" by simp_all
    moreover from k bad have "\<not> list_all sent_ok (sent s)"
      by (auto simp: list_all_length)
    ultimately show ?thesis using fail by simp
  qed
  moreover from cnt have "unat (messages_sent s) = length (filter sent_ok (sent s)) mod 2 ^ 32"
    by (simp add: unat_of_nat)
  ultimately show ?thesis using cnt by simp
qed

theorem counter_counts_successes_witness:
  "fst (main args20 sys_ok fifth_write_fails) = Exit EXIT_FAILURE
   \<and> length (sent (snd (main args20 sys_ok fifth_write_fails))) = 5
   \<and> \<not> sent_ok (sent (snd (main args20 sys_ok fifth_write_fails)) ! 4)
   \<and> messages_sent (snd (main args20 sys_ok fifth_write_fails)) = 4
   \<and> closes (snd (main args20 sys_ok fifth_write_fails)) = 1"
proof -
  have h: "main args20 sys_ok fifth_write_fails
      = (fst (main args20 sys_ok fifth_write_fails), snd (main args20 sys_ok fifth_write_fails))"
    by simp
  have len: "length (sent (snd (main args20 sys_ok fifth_write_fails))) = 5" by code_simp
  have bad: "\<not> sent_ok (sent (snd (main args20 sys_ok fifth_write_fails)) ! 4)" by code_simp
  have cl: "closes (snd (main args20 sys_ok fifth_write_fails)) = 1" by code_simp
  from len have four: "4 < length (sent (snd (main args20 sys_ok fifth_write_fails)))" by simp
  from counter_counts_successes [OF h] four bad
  have "messages_sent (snd (main args20 sys_ok fifth_write_fails)) = of_nat 4
      \<and> fst (main args20 sys_ok fifth_write_fails) = Exit EXIT_FAILURE"
    by blast
  with len bad cl show ?thesis by simp
qed

subsection \<open>The frame\<close>

lemma sint_word_of_int_range:
  "- (2 ^ 31) \<le> i \<Longrightarrow> i < 2 ^ 31 \<Longrightarrow> sint (word_of_int i :: cint) = i"
  by (simp add: sint_sbintrunc' signed_take_bit_int_eq_self)

lemma sint_flipped:
  assumes "- (2 ^ 31) < i" and "i < 2 ^ 31"
  shows "sint ((word_of_int i :: cint) * (- 1) ^ k) = (if even k then i else - i)"
proof -
  from assms have s: "sint (word_of_int i :: cint) = i"
    by (intro sint_word_of_int_range) simp_all
  with assms(1) have "sint (word_of_int i :: cint) \<noteq> - (2 ^ 31)" by simp
  from sint_neg [OF this] s have "sint (- (word_of_int i :: cint)) = - i" by simp
  with s show ?thesis by (cases "even k") simp_all
qed

text \<open>C5: every frame handed to \<^verbatim>\<open>WriteFile\<close> is \<open>#\<close>, then one and the same numeral
  \<open>d\<close> four times, separated by commas, then \<open>;\<close>, where \<open>d\<close> is the decimal numeral
  (\<open>decimal_of\<close>: minus sign for a negative value, no leading zeros) of the value \<^verbatim>\<open>n\<close> has
  at that write. The characters of a frame are among \<open>#\<close>, \<open>,\<close>, \<open>;\<close>, \<open>-\<close> and the ten
  digits, so it holds no newline. When the magnitude argument is the decimal numeral of
  \<open>i\<close> (other than the least \<^verbatim>\<open>int\<close>), the frames at the even places (the first, the
  third, ...) carry the numeral of \<open>i\<close> and those at the odd places the numeral of \<open>- i\<close>;
  for the argument \<open>20\<close> they are \<open>#20,20,20,20;\<close> and \<open>#-20,-20,-20,-20;\<close>. The witness
  also runs the magnitude 15, whose second frame is \<open>#-15,-15,-15,-15;\<close>.\<close>

theorem frame_format:
  assumes "main argv sys ticks = (r, s)"
  shows "(\<forall>e \<in> set (sent s). \<exists>d.
            sent_bytes e = ''#'' @ d @ '','' @ d @ '','' @ d @ '','' @ d @ '';''
          \<and> decimal_of d (sint (sent_val e))
          \<and> set (sent_bytes e) \<subseteq> set ''#,;-0123456789''
          \<and> CHR 0x0A \<notin> set (sent_bytes e))
     \<and> (\<forall>i. 4 \<le> length argv \<and> decimal_of (argv ! 2) i \<and> - (2 ^ 31) < i \<and> i < 2 ^ 31 \<longrightarrow>
           (\<forall>k<length (sent s). \<exists>d.
              sent_bytes (sent s ! k) = ''#'' @ d @ '','' @ d @ '','' @ d @ '','' @ d @ '';''
            \<and> decimal_of d (if even k then i else - i)))
     \<and> (4 \<le> length argv \<and> argv ! 2 = ''20'' \<longrightarrow>
           (\<forall>k<length (sent s).
              sent_bytes (sent s ! k) = (if even k then ''#20,20,20,20;'' else ''#-20,-20,-20,-20;'')))"
proof -
  from main_counts [OF assms] obtain v where alt: "alternates v (sent s)"
    by blast
  have fmt: "sent_bytes e = format_msg (sent_val e)" if "e \<in> set (sent s)" for e
  proof -
    from that obtain k where "k < length (sent s)" "e = sent s ! k"
      by (auto simp: in_set_conv_nth)
    with alternates_nth [OF alt, of k] show ?thesis by simp
  qed
  have first: "\<forall>e \<in> set (sent s). \<exists>d.
            sent_bytes e = ''#'' @ d @ '','' @ d @ '','' @ d @ '','' @ d @ '';''
          \<and> decimal_of d (sint (sent_val e))
          \<and> set (sent_bytes e) \<subseteq> set ''#,;-0123456789''
          \<and> CHR 0x0A \<notin> set (sent_bytes e)"
  proof
    fix e assume "e \<in> set (sent s)"
    then have b: "sent_bytes e = format_msg (sent_val e)" by (rule fmt)
    show "\<exists>d. sent_bytes e = ''#'' @ d @ '','' @ d @ '','' @ d @ '','' @ d @ '';''
          \<and> decimal_of d (sint (sent_val e))
          \<and> set (sent_bytes e) \<subseteq> set ''#,;-0123456789''
          \<and> CHR 0x0A \<notin> set (sent_bytes e)"
    proof (intro exI [of _ "dec_int (sint (sent_val e))"] conjI)
      show "sent_bytes e = ''#'' @ dec_int (sint (sent_val e)) @ '','' @ dec_int (sint (sent_val e))
          @ '','' @ dec_int (sint (sent_val e)) @ '','' @ dec_int (sint (sent_val e)) @ '';''"
        using b by (simp add: format_msg_def)
      show "decimal_of (dec_int (sint (sent_val e))) (sint (sent_val e))"
        by (rule dec_int_decimal)
      show "set (sent_bytes e) \<subseteq> set ''#,;-0123456789''"
        unfolding b by (rule format_msg_chars)
      show "CHR 0x0A \<notin> set (sent_bytes e)"
        using format_msg_no_newline [of "sent_val e"] b by simp
    qed
  qed
  have second: "\<exists>d. sent_bytes (sent s ! k) = ''#'' @ d @ '','' @ d @ '','' @ d @ '','' @ d @ '';''
            \<and> decimal_of d (if even k then i else - i)"
    if len: "4 \<le> length argv" and arg: "decimal_of (argv ! 2) i"
      and lo: "- (2 ^ 31) < i" and hi: "i < 2 ^ 31" and k: "k < length (sent s)" for i k
  proof -
    from lo have "- (2 ^ 31) \<le> i" by simp
    from decimal_of_extract [OF arg this hi] have "extract_int (argv ! 2) = Some (word_of_int i)" .
    from main_alternates [OF assms len this] have "alternates (word_of_int i) (sent s)" by simp
    from alternates_nth [OF this k]
    have v: "sent_val (sent s ! k) = word_of_int i * (- 1) ^ k"
      and b: "sent_bytes (sent s ! k) = format_msg (sent_val (sent s ! k))" by simp_all
    from v sint_flipped [OF lo hi, of k]
    have sv: "sint (sent_val (sent s ! k)) = (if even k then i else - i)" by (simp only:)
    show ?thesis
    proof (intro exI [of _ "dec_int (sint (sent_val (sent s ! k)))"] conjI)
      show "sent_bytes (sent s ! k) = ''#'' @ dec_int (sint (sent_val (sent s ! k))) @ '',''
          @ dec_int (sint (sent_val (sent s ! k))) @ '','' @ dec_int (sint (sent_val (sent s ! k)))
          @ '','' @ dec_int (sint (sent_val (sent s ! k))) @ '';''"
        using b by (simp add: format_msg_def)
      show "decimal_of (dec_int (sint (sent_val (sent s ! k)))) (if even k then i else - i)"
        using dec_int_decimal [of "sint (sent_val (sent s ! k))"] sv by (simp only:)
    qed
  qed
  have third: "sent_bytes (sent s ! k) = (if even k then ''#20,20,20,20;'' else ''#-20,-20,-20,-20;'')"
    if len: "4 \<le> length argv" and arg: "argv ! 2 = ''20''" and k: "k < length (sent s)" for k
  proof -
    have "extract_int ''20'' = Some 20" by code_simp
    with arg have "extract_int (argv ! 2) = Some 20" by simp
    from main_alternates [OF assms len this] have "alternates 20 (sent s)" by simp
    from alternates_nth [OF this k] show ?thesis by (simp only: format_msg_20)
  qed
  from first second third show ?thesis by blast
qed

lemma decimal_of_minus_15: "decimal_of ''-15'' (- 15)"
  by (simp add: decimal_of_def decimal_digit_def)

lemma decimal_of_15: "decimal_of ''15'' 15"
  by (simp add: decimal_of_def decimal_digit_def)

theorem frame_format_witness:
  "4 \<le> length args20 \<and> args20 ! 2 = ''20''
   \<and> map sent_bytes (sent (snd (main args20 sys_ok two_cycles))) = [''#20,20,20,20;'', ''#-20,-20,-20,-20;'']
   \<and> CHR 0x0A \<notin> set (sent_bytes (sent (snd (main args20 sys_ok two_cycles)) ! 1))
   \<and> 4 \<le> length args15 \<and> decimal_of (args15 ! 2) 15 \<and> - (2 ^ 31) < (15 :: int) \<and> (15 :: int) < 2 ^ 31
   \<and> length (sent (snd (main args15 sys_ok two_cycles))) = 2
   \<and> sent_bytes (sent (snd (main args15 sys_ok two_cycles)) ! 1) = ''#-15,-15,-15,-15;''"
proof -
  have h: "main args20 sys_ok two_cycles
      = (fst (main args20 sys_ok two_cycles), snd (main args20 sys_ok two_cycles))" by simp
  have a: "4 \<le> length args20 \<and> args20 ! 2 = ''20''" by (simp add: args20_def)
  have b: "map sent_bytes (sent (snd (main args20 sys_ok two_cycles))) = [''#20,20,20,20;'', ''#-20,-20,-20,-20;'']"
    by code_simp
  have "length (sent (snd (main args20 sys_ok two_cycles))) = 2" by code_simp
  then have "sent (snd (main args20 sys_ok two_cycles)) ! 1 \<in> set (sent (snd (main args20 sys_ok two_cycles)))"
    by simp
  with frame_format [OF h]
  have c: "CHR 0x0A \<notin> set (sent_bytes (sent (snd (main args20 sys_ok two_cycles)) ! 1))"
    by blast
  have h15: "main args15 sys_ok two_cycles
      = (fst (main args15 sys_ok two_cycles), snd (main args15 sys_ok two_cycles))" by simp
  have a15: "4 \<le> length args15" by (simp add: args15_def)
  have d15: "decimal_of (args15 ! 2) 15" using decimal_of_15 by (simp add: args15_def)
  have r15: "- (2 ^ 31) < (15 :: int)" "(15 :: int) < 2 ^ 31" by simp_all
  have l15: "length (sent (snd (main args15 sys_ok two_cycles))) = 2" by code_simp
  then have one: "1 < length (sent (snd (main args15 sys_ok two_cycles)))" by simp
  from frame_format [OF h15] a15 d15 r15 one
  obtain d where d: "sent_bytes (sent (snd (main args15 sys_ok two_cycles)) ! 1)
        = ''#'' @ d @ '','' @ d @ '','' @ d @ '','' @ d @ '';''"
    and dd: "decimal_of d (if even (1::nat) then 15 else - 15)"
    by blast
  from dd have "decimal_of d (- 15)" by simp
  from decimal_of_unique [OF this decimal_of_minus_15] have "d = ''-15''" .
  with d have e: "sent_bytes (sent (snd (main args15 sys_ok two_cycles)) ! 1) = ''#-15,-15,-15,-15;''"
    by simp
  from a b c a15 d15 r15 l15 e show ?thesis by (simp only: simp_thms)
qed

subsection \<open>The busy wait never releases a send early\<close>

lemma run_loop_spaced:
  assumes "sorted (map clock ticks)"
    and "run_loop sys comport p l s ticks = (r, s')"
    and "case l of
           L157 \<Rightarrow> t0 = last_send_time s
         | L159 \<Rightarrow> t0 = last_send_time s
         | L162 \<Rightarrow> t0 = last_send_time s
                    \<and> (\<exists>c. p * 1000000 \<le> c - t0 \<and> (\<forall>t \<in> set ticks. c \<le> clock t))
         | L168 \<Rightarrow> p * 1000000 \<le> now s - t0 \<and> last_send_time s = now s"
  shows "\<exists>es. sent s' = sent s @ es \<and> spaced (p * 1000000) t0 es"
  using assms
proof (induction ticks arbitrary: l s t0)
  case Nil
  then show ?case by simp
next
  case (Cons t ts)
  from Cons.prems(1) have sorted_ts: "sorted (map clock ts)"
    and later: "\<forall>u \<in> set ts. clock t \<le> clock u"
    by simp_all
  show ?case
  proof (cases l)
    case L157
    show ?thesis
    proof (cases "gStopRequested (deliver t s)")
      case True
      with L157 Cons.prems(2) show ?thesis by (auto simp: Let_def)
    next
      case False
      with L157 Cons.prems(2) have "run_loop sys comport p L159 (deliver t s) ts = (r, s')"
        by (simp add: Let_def)
      from Cons.IH [OF sorted_ts this, of t0] L157 Cons.prems(3) show ?thesis by simp
    qed
  next
    case L159
    show ?thesis
    proof (cases "clock t - last_send_time s < p * 1000000")
      case True
      with L159 Cons.prems(2) have "run_loop sys comport p L159 (deliver t s) ts = (r, s')"
        by (simp add: Let_def)
      from Cons.IH [OF sorted_ts this, of t0] L159 Cons.prems(3) show ?thesis by simp
    next
      case False
      with L159 Cons.prems(2) have run: "run_loop sys comport p L162 (deliver t s) ts = (r, s')"
        by (simp add: Let_def)
      from False L159 Cons.prems(3) later
      have "t0 = last_send_time (deliver t s)
            \<and> (\<exists>c. p * 1000000 \<le> c - t0 \<and> (\<forall>u \<in> set ts. c \<le> clock u))"
        by (auto intro!: exI [of _ "clock t"])
      with Cons.IH [OF sorted_ts run, of t0] show ?thesis by auto
    qed
  next
    case L162
    let ?s1 = "(deliver t s)\<lparr>now := clock t, last_send_time := clock t\<rparr>"
    from L162 Cons.prems(2) have run: "run_loop sys comport p L168 ?s1 ts = (r, s')"
      by (simp add: Let_def)
    from L162 Cons.prems(3) have "p * 1000000 \<le> clock t - t0"
      by fastforce
    then have "p * 1000000 \<le> now ?s1 - t0 \<and> last_send_time ?s1 = now ?s1" by simp
    with Cons.IH [OF sorted_ts run, of t0] show ?thesis by simp
  next
    case L168
    with Cons.prems(3) have gap: "p * 1000000 \<le> now s - t0" and lst: "last_send_time s = now s"
      by simp_all
    show ?thesis
    proof (cases "WriteFile t")
      case (Inl e)
      with L168 Cons.prems(2) gap show ?thesis
        by (auto simp: Let_def)
    next
      case (Inr u)
      let ?e = "\<lparr>sent_at = now s, issued_at = clock t, sent_val = val_n s,
                 sent_bytes = format_msg (val_n s),
                 sent_ok = True\<rparr>"
      let ?s1 = "status_print ((deliver t s)\<lparr>sent := sent s @ [?e], val_n := val_n s * (- 1),
                  messages_sent := messages_sent s + 1\<rparr>)"
      from Inr L168 Cons.prems(2) have run: "run_loop sys comport p L157 ?s1 ts = (r, s')"
        by (simp add: Let_def)
      from Cons.IH [OF sorted_ts run, of "now s"] lst obtain es where
        "sent s' = sent ?s1 @ es" "spaced (p * 1000000) (now s) es"
        by auto
      with gap show ?thesis
        by (intro exI [of _ "?e # es"]) simp
    qed
  qed
qed

lemma spaced_nth:
  "spaced d t0 es \<Longrightarrow> Suc k < length es \<Longrightarrow> d \<le> sent_at (es ! Suc k) - sent_at (es ! k)"
proof (induction es arbitrary: t0 k)
  case Nil
  then show ?case by simp
next
  case (Cons e es)
  show ?case
  proof (cases k)
    case 0
    with Cons.prems show ?thesis by (cases es) simp_all
  next
    case (Suc j)
    with Cons.prems Cons.IH [of "sent_at e" j] show ?thesis by simp
  qed
qed

lemma spaced_first: "spaced d t0 es \<Longrightarrow> es \<noteq> [] \<Longrightarrow> d \<le> sent_at (es ! 0) - t0"
  by (cases es) simp_all

lemma setup_send_loop_spaced:
  assumes "sorted (map clock ticks)" "setup_send_loop sys comport f p s ticks = (r, s')" "sent s = []"
  shows "spaced (p * 1000000) (clock (hd ticks)) (sent s')"
proof (cases ticks)
  case Nil
  with assms show ?thesis by (simp add: setup_send_loop_def)
next
  case (Cons t ts)
  let ?s0 = "(deliver t s)\<lparr>messages_sent := 0, last_send_time := clock t, last_print_time := clock t,
      stdout := stdout (deliver t s) @ ''Sending [+/-] '' @ dec_int (sint (val_n (deliver t s)))
                    @ '' to '' @ comport @ '' with '' @ dec_int (sint f) @ ''Hz (''
                    @ dec_int p @ '' ms)...'' @ endl\<rparr>"
  from Cons assms(2) have run: "run_loop sys comport p L157 ?s0 ts = (r, s')"
    by (simp add: setup_send_loop_def Let_def)
  from Cons assms(1) have "sorted (map clock ts)" by simp
  from run_loop_spaced [OF this run, of "clock t"] assms(3) Cons show ?thesis by simp
qed

lemma main_spaced:
  assumes "main argv sys ticks = (r, s)" "sorted (map clock ticks)"
    "4 \<le> length argv" "extract_int (argv ! 3) = Some f"
  shows "spaced (sleep_time_ms f * 1000000) (clock (hd ticks)) (sent s)"
  using assms
  unfolding main_def startup_def init_state_def
  by (auto simp: Let_def split: option.splits sum.splits if_splits dest!: setup_send_loop_spaced)

text \<open>A write is never issued before the time stamp of its cycle.\<close>

lemma run_loop_issued:
  assumes "sorted (map clock ticks)"
    and "run_loop sys comport p l s ticks = (r, s')"
    and "l = L168 \<longrightarrow> (\<forall>t \<in> set ticks. now s \<le> clock t)"
  shows "\<exists>es. sent s' = sent s @ es \<and> (\<forall>e \<in> set es. sent_at e \<le> issued_at e)"
  using assms
proof (induction ticks arbitrary: l s)
  case Nil
  then show ?case by simp
next
  case (Cons t ts)
  from Cons.prems(1) have sorted_ts: "sorted (map clock ts)"
    and later: "\<forall>u \<in> set ts. clock t \<le> clock u"
    by simp_all
  show ?case
  proof (cases l)
    case L157
    show ?thesis
    proof (cases "gStopRequested (deliver t s)")
      case True
      with L157 Cons.prems(2) show ?thesis by (auto simp: Let_def)
    next
      case False
      with L157 Cons.prems(2) have "run_loop sys comport p L159 (deliver t s) ts = (r, s')"
        by (simp add: Let_def)
      from Cons.IH [OF sorted_ts this] show ?thesis by simp
    qed
  next
    case L159
    show ?thesis
    proof (cases "clock t - last_send_time s < p * 1000000")
      case True
      with L159 Cons.prems(2) have "run_loop sys comport p L159 (deliver t s) ts = (r, s')"
        by (simp add: Let_def)
      from Cons.IH [OF sorted_ts this] show ?thesis by simp
    next
      case False
      with L159 Cons.prems(2) have "run_loop sys comport p L162 (deliver t s) ts = (r, s')"
        by (simp add: Let_def)
      from Cons.IH [OF sorted_ts this] show ?thesis by simp
    qed
  next
    case L162
    let ?s1 = "(deliver t s)\<lparr>now := clock t, last_send_time := clock t\<rparr>"
    from L162 Cons.prems(2) have run: "run_loop sys comport p L168 ?s1 ts = (r, s')"
      by (simp add: Let_def)
    from later have "L168 = L168 \<longrightarrow> (\<forall>u \<in> set ts. now ?s1 \<le> clock u)" by simp
    from Cons.IH [OF sorted_ts run this] show ?thesis by simp
  next
    case L168
    with Cons.prems(3) have stamp: "now s \<le> clock t" by simp
    show ?thesis
    proof (cases "WriteFile t")
      case (Inl e)
      with L168 Cons.prems(2) stamp show ?thesis
        by (auto simp: Let_def)
    next
      case (Inr u)
      let ?e = "\<lparr>sent_at = now s, issued_at = clock t, sent_val = val_n s,
                 sent_bytes = format_msg (val_n s), sent_ok = True\<rparr>"
      let ?s1 = "status_print ((deliver t s)\<lparr>sent := sent s @ [?e], val_n := val_n s * (- 1),
                  messages_sent := messages_sent s + 1\<rparr>)"
      from Inr L168 Cons.prems(2) have run: "run_loop sys comport p L157 ?s1 ts = (r, s')"
        by (simp add: Let_def)
      from Cons.IH [OF sorted_ts run] obtain es where
        "sent s' = sent ?s1 @ es" "\<forall>e \<in> set es. sent_at e \<le> issued_at e"
        by auto
      with stamp show ?thesis
        by (intro exI [of _ "?e # es"]) simp
    qed
  qed
qed

lemma setup_send_loop_issued:
  assumes "sorted (map clock ticks)" "setup_send_loop sys comport f p s ticks = (r, s')" "sent s = []"
  shows "\<forall>e \<in> set (sent s'). sent_at e \<le> issued_at e"
proof (cases ticks)
  case Nil
  with assms show ?thesis by (simp add: setup_send_loop_def)
next
  case (Cons t ts)
  let ?s0 = "(deliver t s)\<lparr>messages_sent := 0, last_send_time := clock t, last_print_time := clock t,
      stdout := stdout (deliver t s) @ ''Sending [+/-] '' @ dec_int (sint (val_n (deliver t s)))
                    @ '' to '' @ comport @ '' with '' @ dec_int (sint f) @ ''Hz (''
                    @ dec_int p @ '' ms)...'' @ endl\<rparr>"
  from Cons assms(2) have run: "run_loop sys comport p L157 ?s0 ts = (r, s')"
    by (simp add: setup_send_loop_def Let_def)
  from Cons assms(1) have "sorted (map clock ts)" by simp
  from run_loop_issued [OF this run] assms(3) show ?thesis by auto
qed

lemma main_issued:
  assumes "main argv sys ticks = (r, s)" "sorted (map clock ticks)"
  shows "\<forall>e \<in> set (sent s). sent_at e \<le> issued_at e"
  using assms
  unfolding main_def startup_def init_state_def
  by (auto simp: Let_def split: option.splits sum.splits if_splits dest!: setup_send_loop_issued)

text \<open>C6, as the code has it: for a frequency argument \<open>f\<close> with \<open>0 < f \<le> 1000\<close> the
  period is \<open>1000 div f\<close> milliseconds. What the busy wait spaces by that period are the
  time stamps of the loop: the reading \<^verbatim>\<open>now\<close> of line 162, taken when the wait is over
  and before \<^verbatim>\<open>WriteFile\<close> is called, and kept as \<^verbatim>\<open>last_send_time\<close>. The stamps of any
  two consecutive writes lie at least a period apart, and so does the first stamp from
  the reading of line 150. A write is issued no earlier than its own stamp, hence at
  least a period after the stamp of the write before it. The steady clock never goes
  back: its readings, in the order the program takes them, are sorted. Nothing bounds
  from below the time between the two \<^verbatim>\<open>WriteFile\<close> calls themselves: see the run
  \<open>late_write\<close> after the witness.\<close>

theorem sends_spaced_by_period:
  assumes "4 \<le> length argv" and "extract_int (argv ! 3) = Some f"
    and "0 < sint f" and "sint f \<le> 1000"
    and "sorted (map clock ticks)" and "main argv sys ticks = (r, s)"
  shows "sleep_time_ms f = 1000 div sint f
     \<and> (\<forall>k. Suc k < length (sent s) \<longrightarrow>
           (1000 div sint f) * 1000000 \<le> sent_at (sent s ! Suc k) - sent_at (sent s ! k))
     \<and> (sent s \<noteq> [] \<longrightarrow> (1000 div sint f) * 1000000 \<le> sent_at (sent s ! 0) - clock (hd ticks))
     \<and> (\<forall>k<length (sent s). sent_at (sent s ! k) \<le> issued_at (sent s ! k))
     \<and> (\<forall>k. Suc k < length (sent s) \<longrightarrow>
           (1000 div sint f) * 1000000 \<le> issued_at (sent s ! Suc k) - sent_at (sent s ! k))"
proof -
  from assms(3) have p: "sleep_time_ms f = 1000 div sint f"
    by (simp add: sleep_time_ms_def sdiv_pos)
  from main_spaced [OF assms(6,5,1,2)] p
  have sp: "spaced ((1000 div sint f) * 1000000) (clock (hd ticks)) (sent s)" by simp
  have iss: "sent_at (sent s ! k) \<le> issued_at (sent s ! k)" if "k < length (sent s)" for k
    using main_issued [OF assms(6,5)] that by simp
  have gap: "(1000 div sint f) * 1000000 \<le> sent_at (sent s ! Suc k) - sent_at (sent s ! k)"
    if "Suc k < length (sent s)" for k
    using spaced_nth [OF sp that] .
  have gap2: "(1000 div sint f) * 1000000 \<le> issued_at (sent s ! Suc k) - sent_at (sent s ! k)"
    if "Suc k < length (sent s)" for k
    using gap [OF that] iss [OF that] by linarith
  from p sp iss gap gap2 show ?thesis by (auto dest: spaced_first)
qed

theorem sends_spaced_by_period_witness:
  "4 \<le> length args20 \<and> extract_int (args20 ! 3) = Some 100
   \<and> 0 < sint (100 :: cint) \<and> sint (100 :: cint) \<le> 1000
   \<and> sorted (map clock two_cycles)
   \<and> sleep_time_ms 100 = 10
   \<and> map sent_at (sent (snd (main args20 sys_ok two_cycles))) = [10000000, 20000000]
   \<and> 10 * 1000000 \<le> sent_at (sent (snd (main args20 sys_ok two_cycles)) ! 1)
                       - sent_at (sent (snd (main args20 sys_ok two_cycles)) ! 0)"
proof -
  have h1: "4 \<le> length args20" by (simp add: args20_def)
  have h2: "extract_int (args20 ! 3) = Some 100" by code_simp
  have h3: "0 < sint (100 :: cint)" and h4: "sint (100 :: cint) \<le> 1000" by simp_all
  have h5: "sorted (map clock two_cycles)"
    by (simp add: two_cycles_def cycle_def quiet_def period10_def)
  have h6: "main args20 sys_ok two_cycles
      = (fst (main args20 sys_ok two_cycles), snd (main args20 sys_ok two_cycles))" by simp
  have ats: "map sent_at (sent (snd (main args20 sys_ok two_cycles))) = [10000000, 20000000]"
    by code_simp
  then have "length (map sent_at (sent (snd (main args20 sys_ok two_cycles)))) = 2" by simp
  then have len: "Suc 0 < length (sent (snd (main args20 sys_ok two_cycles)))" by simp
  note gaps = sends_spaced_by_period [OF h1 h2 h3 h4 h5 h6]
  from gaps have p: "sleep_time_ms 100 = 1000 div sint (100 :: cint)" by blast
  from gaps len have "(1000 div sint (100 :: cint)) * 1000000
      \<le> sent_at (sent (snd (main args20 sys_ok two_cycles)) ! Suc 0)
        - sent_at (sent (snd (main args20 sys_ok two_cycles)) ! 0)" by blast
  with p h1 h2 h5 ats show ?thesis by simp
qed

text \<open>The run that refutes C6 as stated. The clock readings of \<open>late_write\<close> are sorted
  and the period is 10 ms; the first cycle takes its stamp at 10 ms and its write is
  issued at 19 ms, the second cycle waits until 20 ms (a period after the first stamp),
  stamps and writes at 20 ms. Both writes succeed, 1 ms apart.\<close>

theorem write_gap_counterexample:
  "extract_int (args20 ! 3) = Some 100 \<and> sleep_time_ms 100 = 10
   \<and> sorted (map clock late_write)
   \<and> map sent_ok (sent (snd (main args20 sys_ok late_write))) = [True, True]
   \<and> map sent_at (sent (snd (main args20 sys_ok late_write))) = [10000000, 20000000]
   \<and> map issued_at (sent (snd (main args20 sys_ok late_write))) = [19000000, 20000000]
   \<and> issued_at (sent (snd (main args20 sys_ok late_write)) ! 1)
       - issued_at (sent (snd (main args20 sys_ok late_write)) ! 0) < 10 * 1000000"
  by code_simp

subsection \<open>A stop signal during the wait\<close>

lemma stop_survives [simp]: "gStopRequested s \<Longrightarrow> gStopRequested (deliver t s) = True"
  by (simp add: deliver_keeps_stop)

text \<open>C1, as the code has it: the stop flag is read at line 157 only, at the top of a
  cycle, and never inside the busy wait. When the flag is already true while the loop
  is in its wait phase, the loop still finishes the wait (\<open>waits\<close> are the polls that
  come too early, \<open>e\<close> the one that ends the wait), reads the clock (\<open>tn\<close>) and performs
  that cycle's write (\<open>tw\<close>). Only then does it leave: after a successful write through
  the flag read of line 157 (\<open>th\<close>), with the success code; after a failed write with
  the failure code. Exactly one frame is written after the flag was true during the
  wait, the handle is closed once, and whatever the environment does later (\<open>rest\<close>)
  is never observed.\<close>

theorem stop_during_wait_still_writes:
  assumes "gStopRequested s"
    and "\<forall>w \<in> set waits. clock w - last_send_time s < p * 1000000"
    and "p * 1000000 \<le> clock e - last_send_time s"
  shows "\<exists>s'. run_loop sys comport p L159 s (waits @ e # tn # tw # th # rest)
            = (Exit (if isl (WriteFile tw) then EXIT_FAILURE else EXIT_SUCCESS), s')
          \<and> sent s' = sent s @ [\<lparr>sent_at = clock tn, issued_at = clock tw, sent_val = val_n s,
                                  sent_bytes = format_msg (val_n s),
                                  sent_ok = (\<not> isl (WriteFile tw))\<rparr>]
          \<and> closes s' = closes s + 1"
  using assms
proof (induction waits arbitrary: s)
  case Nil
  then show ?case
    by (cases "WriteFile tw") (simp_all add: Let_def)
next
  case (Cons w ws)
  from Cons.prems have "gStopRequested (deliver w s)"
    and "\<forall>u \<in> set ws. clock u - last_send_time (deliver w s) < p * 1000000"
    and "p * 1000000 \<le> clock e - last_send_time (deliver w s)"
    by simp_all
  from Cons.IH [OF this] Cons.prems(2) show ?case
    by (simp add: Let_def)
qed

theorem stop_during_wait_still_writes_witness:
  "gStopRequested (snd (main args20 sys_ok stop_in_wait))
   \<and> fst (main args20 sys_ok stop_in_wait) = Running L159
   \<and> fst (run_loop sys_ok ''COM7'' 10 L159 (snd (main args20 sys_ok stop_in_wait))
            (quiet 5000000 # rest_of_cycle)) = Exit EXIT_SUCCESS
   \<and> map sent_bytes (sent (snd (run_loop sys_ok ''COM7'' 10 L159
         (snd (main args20 sys_ok stop_in_wait)) (quiet 5000000 # rest_of_cycle))))
       = [''#20,20,20,20;'']"
proof -
  let ?s = "snd (main args20 sys_ok stop_in_wait)"
  have a: "gStopRequested ?s" by code_simp
  have b: "fst (main args20 sys_ok stop_in_wait) = Running L159" by code_simp
  have "clock (quiet 5000000) - last_send_time ?s < 10 * 1000000" by code_simp
  then have c: "\<forall>w \<in> set [quiet 5000000]. clock w - last_send_time ?s < 10 * 1000000" by simp
  have d: "10 * 1000000 \<le> clock (quiet period10) - last_send_time ?s" by code_simp
  have e: "sent ?s = []" by code_simp
  have f: "val_n ?s = 20" by code_simp
  have g: "format_msg 20 = ''#20,20,20,20;''" by code_simp
  from stop_during_wait_still_writes [OF a c d,
      of sys_ok "''COM7''" "quiet period10" "quiet period10" "quiet period10" "[]"]
  obtain s' where
    "run_loop sys_ok ''COM7'' 10 L159 ?s (quiet 5000000 # rest_of_cycle) = (Exit EXIT_SUCCESS, s')"
    "sent s' = sent ?s @ [\<lparr>sent_at = clock (quiet period10),
                           issued_at = clock (quiet period10), sent_val = val_n ?s,
                           sent_bytes = format_msg (val_n ?s), sent_ok = True\<rparr>]"
    by (auto simp: rest_of_cycle_def quiet_def)
  with a b e f g show ?thesis by simp
qed

text \<open>The run that refutes C1 as stated. After the ticks \<open>stop_in_wait\<close> the program
  stands in the busy wait (line 159), the Ctrl+C has set the flag and nothing has been
  written; the same run continued writes \<open>#20,20,20,20;\<close>, counts it, and exits with
  the success code.\<close>

theorem stop_during_wait_counterexample:
  "fst (main args20 sys_ok stop_in_wait) = Running L159
   \<and> gStopRequested (snd (main args20 sys_ok stop_in_wait))
   \<and> sent (snd (main args20 sys_ok stop_in_wait)) = []
   \<and> fst (main args20 sys_ok (stop_in_wait @ rest_of_cycle)) = Exit EXIT_SUCCESS
   \<and> map sent_bytes (sent (snd (main args20 sys_ok (stop_in_wait @ rest_of_cycle)))) = [''#20,20,20,20;'']
   \<and> messages_sent (snd (main args20 sys_ok (stop_in_wait @ rest_of_cycle))) = 1"
  by code_simp

subsection \<open>The sign of consecutive frames\<close>

text \<open>Away from the least \<^verbatim>\<open>int\<close> the values of consecutive writes are negations of each
  other, as integers, and every write but the last has succeeded.\<close>

lemma sign_alternates_off_int_min:
  assumes "4 \<le> length argv" and "extract_int (argv ! 2) = Some m" and "sint m \<noteq> - (2 ^ 31)"
    and "main argv sys ticks = (r, s)" and "Suc k < length (sent s)"
  shows "sent_ok (sent s ! k) \<and> sint (sent_val (sent s ! Suc k)) = - sint (sent_val (sent s ! k))"
proof -
  from main_alternates [OF assms(4,1,2)] have alt: "alternates m (sent s)" by simp
  from assms(5) have k: "k < length (sent s)" by simp
  from alternates_nth [OF alt k] assms(5)
  have ok: "sent_ok (sent s ! k)" and vk: "sent_val (sent s ! k) = m * (- 1) ^ k" by simp_all
  from alternates_nth [OF alt assms(5)]
  have vk1: "sent_val (sent s ! Suc k) = - sent_val (sent s ! k)" by (simp add: vk)
  have eq: "\<bar>sint (sent_val (sent s ! k))\<bar> = \<bar>sint m\<bar>" by (simp only: vk abs_sint_flip)
  have bounds: "- 2147483648 \<le> sint m" "sint m < 2147483648"
    using sint_ge [of m] sint_lt [of m] by simp_all
  from assms(3) have "sint m \<noteq> - 2147483648" by simp
  with eq bounds have "sint (sent_val (sent s ! k)) \<noteq> - 2147483648" by linarith
  then have "sint (sent_val (sent s ! k)) \<noteq> - (2 ^ 31)" by simp
  then show ?thesis using ok vk1 by (simp add: sint_neg)
qed

text \<open>C2 at the magnitude \<open>-2147483648\<close>: the argument parses, \<^verbatim>\<open>n *= -1\<close> overflows
  (undefined in C++; the two's complement result is \<open>-2147483648\<close> again), and two
  successful writes in a row carry the same value, not negated.\<close>

theorem int_min_never_flips:
  "extract_int (args_int_min ! 2) = Some (- 2147483648)
   \<and> fst (main args_int_min sys_ok two_cycles) = Running L157
   \<and> map sent_ok (sent (snd (main args_int_min sys_ok two_cycles))) = [True, True]
   \<and> map (\<lambda>e. sint (sent_val e)) (sent (snd (main args_int_min sys_ok two_cycles)))
       = [- 2147483648, - 2147483648]
   \<and> map sent_bytes (sent (snd (main args_int_min sys_ok two_cycles)))
       = [''#-2147483648,-2147483648,-2147483648,-2147483648;'',
          ''#-2147483648,-2147483648,-2147483648,-2147483648;'']"
  by code_simp

subsection \<open>Closing the handle\<close>

lemma run_loop_exit_closes:
  "run_loop sys comport p l s ticks = (Exit c, s') \<Longrightarrow>
     closes s' = closes s + 1 \<and> opens s' = opens s"
proof (induction ticks arbitrary: l s)
  case Nil
  then show ?case by simp
next
  case (Cons t ts)
  show ?case
  proof (cases l)
    case L157
    with Cons.prems Cons.IH [of L159 "deliver t s"] show ?thesis
      by (auto simp: Let_def split: if_splits)
  next
    case L159
    with Cons.prems Cons.IH [of L159 "deliver t s"] Cons.IH [of L162 "deliver t s"] show ?thesis
      by (auto simp: Let_def split: if_splits)
  next
    case L162
    with Cons.prems
      Cons.IH [of L168 "deliver t s\<lparr>now := clock t, last_send_time := clock t\<rparr>"]
    show ?thesis
      by (auto simp: Let_def split: if_splits)
  next
    case L168
    show ?thesis
    proof (cases "WriteFile t")
      case (Inl e)
      with L168 Cons.prems show ?thesis
        by (auto simp: Let_def)
    next
      case (Inr u)
      with L168 Cons.prems show ?thesis
        by (auto simp: Let_def dest!: Cons.IH)
    qed
  qed
qed

text \<open>Every exit after the port was opened closes the handle exactly once, except the
  exit on a failed \<^verbatim>\<open>SetConsoleCtrlHandler\<close>, which never closes it.\<close>

lemma exits_close_once_but_handler_failure:
  assumes "main argv sys ticks = (Exit c, s)" and "opens s = 1"
  shows "closes s = (if isl (SetConsoleCtrlHandler sys) then 0 else 1)"
  using assms
  unfolding main_def startup_def setup_send_loop_def init_state_def
  by (auto simp: Let_def split: option.splits sum.splits list.splits if_splits
        dest!: run_loop_exit_closes)

text \<open>C7 where \<^verbatim>\<open>SetConsoleCtrlHandler\<close> fails (here with code 87) after the port was
  opened: the process exits with the failure code and \<^verbatim>\<open>CloseHandle\<close> was never
  called.\<close>

theorem handler_failure_leaks_handle:
  "fst (main args20 (sys_ok\<lparr>SetConsoleCtrlHandler := Inl 87\<rparr>) ticks) = Exit EXIT_FAILURE
   \<and> opens (snd (main args20 (sys_ok\<lparr>SetConsoleCtrlHandler := Inl 87\<rparr>) ticks)) = 1
   \<and> closes (snd (main args20 (sys_ok\<lparr>SetConsoleCtrlHandler := Inl 87\<rparr>) ticks)) = 0
   \<and> stderr (snd (main args20 (sys_ok\<lparr>SetConsoleCtrlHandler := Inl 87\<rparr>) ticks))
       = ''Failed to set control handler: Unknown error (87)'' @ endl"
  by code_simp

subsection \<open>Configuration failures\<close>

text \<open>A failed \<^verbatim>\<open>SetConsoleCtrlHandler\<close> or \<^verbatim>\<open>SetCommTimeouts\<close> ends the program with
  the failure code before any write.\<close>

lemma other_configuration_failures_fatal:
  assumes "4 \<le> length argv" and "extract_int (argv ! 2) = Some n"
    and "extract_int (argv ! 3) = Some f" and "f \<noteq> 0" and "sint f \<le> 1000"
    and "CreateFile sys (argv ! 1) = Inr ()"
    and "isl (SetConsoleCtrlHandler sys) \<or> isl (SetCommTimeouts sys)"
  shows "fst (main argv sys ticks) = Exit EXIT_FAILURE \<and> sent (snd (main argv sys ticks)) = []"
  using assms
  unfolding main_def startup_def init_state_def
  by (auto simp: Let_def split: sum.splits)

text \<open>C8 where \<^verbatim>\<open>GetCommState\<close> fails (here with code 5): the error is reported on the
  error stream, and the program goes on into the loop, writes a frame, and on the
  Ctrl+C exits with the success code.\<close>

theorem line_settings_failure_not_fatal:
  "fst (main args20 (sys_ok\<lparr>GetCommState := Inl 5\<rparr>) one_cycle_then_stop) = Exit EXIT_SUCCESS
   \<and> stderr (snd (main args20 (sys_ok\<lparr>GetCommState := Inl 5\<rparr>) one_cycle_then_stop))
       = ''GetCommState filed with error Unknown error (5)'' @ endl
   \<and> map sent_bytes (sent (snd (main args20 (sys_ok\<lparr>GetCommState := Inl 5\<rparr>) one_cycle_then_stop)))
       = [''#20,20,20,20;'']
   \<and> messages_sent (snd (main args20 (sys_ok\<lparr>GetCommState := Inl 5\<rparr>) one_cycle_then_stop)) = 1"
  by code_simp

subsection \<open>Argument errors\<close>

text \<open>An unparseable magnitude is echoed in the diagnostic.\<close>

lemma magnitude_error_echoes_argument:
  assumes "4 \<le> length argv" and "extract_int (argv ! 2) = None"
  shows "main argv sys ticks = (Exit EXIT_FAILURE,
      init_state\<lparr>stdout := ''Starting excserial program...'' @ endl,
        stderr := ''Can't convert arg '' @ argv ! 2 @ '' to number!'' @ endl\<rparr>)"
  using assms by (simp add: main_def init_state_def)

text \<open>C9 at the frequency argument \<open>abc\<close> with magnitude argument \<open>10\<close>: the magnitude
  parses, the frequency does not, and the diagnostic echoes \<open>10\<close>, the magnitude
  argument \<^verbatim>\<open>argv[2]\<close>, not the offending \<open>abc\<close>.\<close>

theorem frequency_error_echoes_magnitude:
  "extract_int (args_bad_frequency ! 2) = Some 10
   \<and> extract_int (args_bad_frequency ! 3) = None
   \<and> fst (main args_bad_frequency sys ticks) = Exit EXIT_FAILURE
   \<and> stderr (snd (main args_bad_frequency sys ticks)) = ''Can't convert arg 10 to number!'' @ endl"
  by code_simp

text \<open>C10: the frequency argument \<open>0\<close> parses to 0, which is not greater than 1000.
  With a frequency that parses to a value \<open>f \<le> 0\<close> no validation rejects the run: for
  \<open>f = 0\<close> the program evaluates \<^verbatim>\<open>1000 / f\<close> with a zero divisor, before it has
  printed any diagnostic or opened the port; for \<open>f < 0\<close> it goes on to open the port
  with the period \<open>1000 sdiv f\<close>.\<close>

theorem zero_frequency_reaches_division:
  assumes "4 \<le> length argv" and "extract_int (argv ! 2) = Some n"
    and "extract_int (argv ! 3) = Some f" and "sint f \<le> 0"
  shows "extract_int ''0'' = Some 0 \<and> \<not> 1000 < sint (0 :: cint)
     \<and> main argv sys ticks =
          (if f = 0
           then (DivideByZero,
                 init_state\<lparr>stdout := ''Starting excserial program...'' @ endl, val_n := n\<rparr>)
           else startup sys argv f (sleep_time_ms f)
                 (init_state\<lparr>stdout := ''Starting excserial program...'' @ endl, val_n := n\<rparr>) ticks)"
proof -
  have "extract_int ''0'' = Some 0" by code_simp
  with assms show ?thesis by (simp add: main_def Let_def)
qed

theorem zero_frequency_reaches_division_witness:
  "4 \<le> length args_zero_frequency \<and> extract_int (args_zero_frequency ! 2) = Some 10
   \<and> extract_int (args_zero_frequency ! 3) = Some 0 \<and> sint (0 :: cint) \<le> 0
   \<and> fst (main args_zero_frequency sys_ok two_cycles) = DivideByZero
   \<and> opens (snd (main args_zero_frequency sys_ok two_cycles)) = 0
   \<and> stderr (snd (main args_zero_frequency sys_ok two_cycles)) = []"
proof -
  have h1: "4 \<le> length args_zero_frequency" by (simp add: args_zero_frequency_def)
  have h2: "extract_int (args_zero_frequency ! 2) = Some 10" by code_simp
  have h3: "extract_int (args_zero_frequency ! 3) = Some 0" by code_simp
  have h4: "sint (0 :: cint) \<le> 0" by simp
  from zero_frequency_reaches_division [OF h1 h2 h3 h4, of sys_ok two_cycles]
  have "main args_zero_frequency sys_ok two_cycles
      = (DivideByZero, init_state\<lparr>stdout := ''Starting excserial program...'' @ endl, val_n := 10\<rparr>)"
    by simp
  then have "fst (main args_zero_frequency sys_ok two_cycles) = DivideByZero
      \<and> opens (snd (main args_zero_frequency sys_ok two_cycles)) = 0
      \<and> stderr (snd (main args_zero_frequency sys_ok two_cycles)) = []"
    by (simp add: init_state_def)
  with h1 h2 h3 h4 show ?thesis by simp
qed

end
